theory Spec2Isabelle
  imports Complex_Main
begin

section \<open>Data model of gofrac (frac.go)\<close>

text \<open>
  Conventions of the embedding.
  \<^item> Go's \<open>float64\<close> is read as \<open>real\<close> and \<open>complex128\<close> as \<open>complex\<close>: arithmetic is
    exact, and there is no rounding, infinity or not-a-number. No statement below about
    iteration counts or control flow rests on an algebraic law of these numbers.
  \<^item> Go's \<open>int\<close> is read as \<open>int\<close>. With \<open>MaxIterations \<ge> 1\<close> the only integer
    arithmetic of the iteration loops is \<open>MaxIterations - 1\<close> and \<open>count + 1\<close> with
    \<open>count < MaxIterations - 1\<close>, which stays inside the machine range. Below
    \<open>MaxIterations = 1\<close> the counter of the model grows without bound where the code's
    wraps around. The two statements that do not assume \<open>MaxIterations \<ge> 1\<close> (Mandelbrot's
    shortcut and the polynomiograph's convergence exit) are about the code as long as
    \<open>MaxIterations - 1\<close> and the count stay inside the machine range.
  \<^item> A Go \<open>error\<close> result is an \<open>error option\<close> (\<open>None\<close> is \<open>nil\<close>), a pair of a value and
    an error is a sum. A receiver mutated through a pointer is returned updated.
  \<^item> A function with a loop returns an \<open>option\<close>: \<open>None\<close> stands for a call that never
    returns.
\<close>

datatype error = errors_New string

text \<open>
  \<open>type FracData struct\<close>. The structs that embed it (\<open>Quadratic\<close>, \<open>Mandelbrot\<close>,
  \<open>JuliaQ\<close>, \<open>JuliaR\<close>, \<open>Polynomiograph\<close>) are record extensions, so a method of
  \<open>FracData\<close> applies to each of them, as a promoted method does.
\<close>

record FracData =
  Radius :: real
  MaxIterations :: int
  degree :: real
  logDegreeInv :: real

type_synonym Quadratic = FracData

type_synonym Mandelbrot = Quadratic

text \<open>
  \<open>Result\<close> is declared outside frac.go, which fills its fields \<open>Z\<close>, \<open>C\<close>,
  \<open>Iterations\<close> and \<open>NFactor\<close>. A field left out of a composite literal has Go's zero
  value.
\<close>

record Result =
  Z :: complex
  C :: complex
  Iterations :: int
  NFactor :: real

text \<open>
\<open>func (f *FracData) SetMaxIterations(n int) error\<close>
\<close>

definition SetMaxIterations :: "'a FracData_scheme \<Rightarrow> int \<Rightarrow> 'a FracData_scheme \<times> error option" where
  "SetMaxIterations f n =
     (if n < 1
      then (f, Some (errors_New ''gofrac: the maximum iteration count must be greater than zero''))
      else (f\<lparr>MaxIterations := n\<rparr>, None))"

subsection \<open>Loops\<close>

text \<open>
  A Go loop is given by one pass over it: the pass tests the loop condition, runs the
  body and the post statement, and yields either the state for the next pass (\<open>Inl\<close>) or,
  when the condition fails or the body reaches \<open>break\<close>, the values the code after the loop
  reads (\<open>Inr\<close>). \<open>loop\<close> repeats the pass for as long as the code does; \<open>loop_within n\<close>
  gives up after \<open>n\<close> passes.
\<close>

partial_function (option) loop :: "('s \<Rightarrow> 's + 'r) \<Rightarrow> 's \<Rightarrow> 'r option" where
  "loop pass s = (case pass s of Inl s' \<Rightarrow> loop pass s' | Inr r \<Rightarrow> Some r)"

fun loop_within :: "nat \<Rightarrow> ('s \<Rightarrow> 's + 'r) \<Rightarrow> 's \<Rightarrow> 'r option" where
  "loop_within 0 pass s = None"
| "loop_within (Suc n) pass s =
     (case pass s of Inl s' \<Rightarrow> loop_within n pass s' | Inr r \<Rightarrow> Some r)"

subsection \<open>The shared quadratic core\<close>

text \<open>
\<open>func getMod2(z complex128) float64\<close>
\<close>

definition getMod2 :: "complex \<Rightarrow> real" where
  "getMod2 z = (let a = Re z; b = Im z in a * a + b + b)"

text \<open>
  \<open>func (q Quadratic) q(z complex128, c complex128) *Result\<close>. The loop state is
  \<open>(z, mod2, count)\<close>; \<open>r2\<close>, \<open>maxIt\<close> and \<open>c\<close> do not change.
\<close>

definition q_pass ::
  "real \<Rightarrow> int \<Rightarrow> complex \<Rightarrow> complex \<times> real \<times> int \<Rightarrow> (complex \<times> real \<times> int) + (complex \<times> int)" where
  "q_pass r2 maxIt c s =
     (case s of (z, mod2, count) \<Rightarrow>
        if mod2 \<le> r2
        then (let z = z * z + c in
              if count = maxIt then Inr (z, count)
              else (let mod2 = getMod2 z; count = count + 1; mod2 = getMod2 z
                    in Inl (z, mod2, count)))
        else Inr (z, count))"

definition q :: "'a FracData_scheme \<Rightarrow> complex \<Rightarrow> complex \<Rightarrow> Result option" where
  "q Q z c =
     (let count = 0;
          r2 = Radius Q * Radius Q;
          maxIt = MaxIterations Q - 1
      in map_option (\<lambda>(z, count). \<lparr>Z = z, C = c, Iterations = count, NFactor = 0\<rparr>)
           (loop (q_pass r2 maxIt c) (z, getMod2 z, count)))"

subsection \<open>Mandelbrot and quadratic Julia\<close>

text \<open>
\<open>func isCardioidOrP2Bulb(z complex128, maxIt int) bool\<close>
\<close>

definition isCardioidOrP2Bulb :: "complex \<Rightarrow> int \<Rightarrow> bool" where
  "isCardioidOrP2Bulb z maxIt =
     (let reZ = Re z;
          imZ = Im z;
          rzp = reZ - 0.25;
          imz2 = imZ * imZ;
          q = rzp * rzp + imz2;
          isCardiod = (q * (q + rzp) \<le> 0.25 * imz2)
      in if isCardiod then True
         else (let isP2Bulb = ((reZ + 1) * (reZ + 1) + imZ * imZ \<le> 0.0625)
               in isP2Bulb))"

text \<open>
\<open>func (m Mandelbrot) Frac(loc complex128) *Result\<close>
\<close>

definition Mandelbrot_Frac :: "'a FracData_scheme \<Rightarrow> complex \<Rightarrow> Result option" where
  "Mandelbrot_Frac m loc =
     (if isCardioidOrP2Bulb loc (MaxIterations m)
      then Some \<lparr>Z = loc, C = 0, Iterations = MaxIterations m - 1, NFactor = 0\<rparr>
      else q m 0 loc)"

text \<open>
\<open>type JuliaQ struct\<close> and \<open>func (j JuliaQ) Frac(loc complex128) *Result\<close>
\<close>

record JuliaQ = FracData +
  JuliaQ_C :: complex

definition JuliaQ_Frac :: "'a JuliaQ_scheme \<Rightarrow> complex \<Rightarrow> Result option" where
  "JuliaQ_Frac j loc = q j loc (JuliaQ_C j)"

subsection \<open>Rational Julia\<close>

text \<open>
  \<open>type JuliaR struct\<close> and \<open>func (r JuliaR) Frac(loc complex128) *Result\<close>. The loop state
  is \<open>(z, mod, count)\<close>. Where \<open>Q z = 0\<close> the code's quotient is an infinity or a
  not-a-number, which \<open>complex\<close> does not have; the quotient of the model there is not the
  code's, and no statement below depends on the value of \<open>z\<close> after such a step.
\<close>

record JuliaR = FracData +
  JuliaR_P :: "complex \<Rightarrow> complex"
  JuliaR_Q :: "complex \<Rightarrow> complex"
  JuliaR_C :: complex

definition JuliaR_pass ::
  "'a JuliaR_scheme \<Rightarrow> complex \<times> real \<times> int \<Rightarrow> (complex \<times> real \<times> int) + (complex \<times> int)" where
  "JuliaR_pass r s =
     (case s of (z, modz, count) \<Rightarrow>
        if modz \<le> Radius r
        then (let z = JuliaR_P r z / JuliaR_Q r z + JuliaR_C r in
              if count = MaxIterations r - 1 then Inr (z, count)
              else Inl (z, cmod z, count + 1))
        else Inr (z, count))"

definition JuliaR_Frac :: "'a JuliaR_scheme \<Rightarrow> complex \<Rightarrow> Result option" where
  "JuliaR_Frac r loc =
     (let z = loc;
          count = 0
      in map_option (\<lambda>(z, count). \<lparr>Z = z, C = JuliaR_C r, Iterations = count, NFactor = 0\<rparr>)
           (loop (JuliaR_pass r) (z, cmod z, count)))"

subsection \<open>Rational Julia over float64 values with infinities and not-a-number\<close>

text \<open>
  The loop of \<open>JuliaR.Frac\<close> once more, over a \<open>float64\<close> that keeps the values \<open>real\<close>
  lacks: the two infinities and not-a-number. Finite values stay exact and the sign of
  zero is not kept. \<open>float64_le\<close> is Go's \<open><=\<close>, and the arithmetic follows IEEE 754 on the
  special values. \<open>Hypot\<close>, \<open>cmplx_Abs\<close>, \<open>cmplx_IsInf\<close> and \<open>cmplx_IsNaN\<close> follow the
  documentation of Go's packages \<open>math\<close> and \<open>math/cmplx\<close>: \<open>cmplx.Abs(x)\<close> is
  \<open>math.Hypot(real(x), imag(x))\<close>, which is \<open>+Inf\<close> when a part is infinite and otherwise
  NaN when a part is NaN.
\<close>

datatype float64 = Finite real | PosInf | NegInf | NaN

definition IsNaN :: "float64 \<Rightarrow> bool" where
  "IsNaN f = (f = NaN)"

definition IsInf :: "float64 \<Rightarrow> bool" where
  "IsInf f = (f = PosInf \<or> f = NegInf)"

definition isFinite :: "float64 \<Rightarrow> bool" where
  "isFinite f = (case f of Finite a \<Rightarrow> True | _ \<Rightarrow> False)"

definition Signbit :: "float64 \<Rightarrow> bool" where
  "Signbit f = (case f of Finite a \<Rightarrow> a < 0 | NegInf \<Rightarrow> True | _ \<Rightarrow> False)"

definition float64_le :: "float64 \<Rightarrow> float64 \<Rightarrow> bool" where
  "float64_le x y =
     (case (x, y) of
        (NaN, _) \<Rightarrow> False
      | (_, NaN) \<Rightarrow> False
      | (NegInf, _) \<Rightarrow> True
      | (_, PosInf) \<Rightarrow> True
      | (Finite a, Finite b) \<Rightarrow> a \<le> b
      | _ \<Rightarrow> False)"

definition float64_add :: "float64 \<Rightarrow> float64 \<Rightarrow> float64" where
  "float64_add x y =
     (case (x, y) of
        (NaN, _) \<Rightarrow> NaN
      | (_, NaN) \<Rightarrow> NaN
      | (Finite a, Finite b) \<Rightarrow> Finite (a + b)
      | (PosInf, NegInf) \<Rightarrow> NaN
      | (NegInf, PosInf) \<Rightarrow> NaN
      | (PosInf, _) \<Rightarrow> PosInf
      | (_, PosInf) \<Rightarrow> PosInf
      | _ \<Rightarrow> NegInf)"

definition float64_neg :: "float64 \<Rightarrow> float64" where
  "float64_neg x =
     (case x of Finite a \<Rightarrow> Finite (- a) | PosInf \<Rightarrow> NegInf | NegInf \<Rightarrow> PosInf | NaN \<Rightarrow> NaN)"

definition float64_sub :: "float64 \<Rightarrow> float64 \<Rightarrow> float64" where
  "float64_sub x y = float64_add x (float64_neg y)"

definition float64_mul :: "float64 \<Rightarrow> float64 \<Rightarrow> float64" where
  "float64_mul x y =
     (case (x, y) of
        (NaN, _) \<Rightarrow> NaN
      | (_, NaN) \<Rightarrow> NaN
      | (Finite a, Finite b) \<Rightarrow> Finite (a * b)
      | _ \<Rightarrow> if x = Finite 0 \<or> y = Finite 0 then NaN
             else if Signbit x = Signbit y then PosInf else NegInf)"

definition float64_div :: "float64 \<Rightarrow> float64 \<Rightarrow> float64" where
  "float64_div x y =
     (case (x, y) of
        (NaN, _) \<Rightarrow> NaN
      | (_, NaN) \<Rightarrow> NaN
      | (Finite a, Finite b) \<Rightarrow>
          if b = 0 then (if a = 0 then NaN else if a < 0 then NegInf else PosInf)
          else Finite (a / b)
      | (Finite a, _) \<Rightarrow> Finite 0
      | (_, Finite b) \<Rightarrow> if Signbit x = Signbit y then PosInf else NegInf
      | _ \<Rightarrow> NaN)"

definition float64_abs :: "float64 \<Rightarrow> float64" where
  "float64_abs x =
     (case x of Finite a \<Rightarrow> Finite \<bar>a\<bar> | PosInf \<Rightarrow> PosInf | NegInf \<Rightarrow> PosInf | NaN \<Rightarrow> NaN)"

definition Hypot :: "float64 \<Rightarrow> float64 \<Rightarrow> float64" where
  "Hypot x y =
     (if IsInf x \<or> IsInf y then PosInf
      else if IsNaN x \<or> IsNaN y then NaN
      else (case (x, y) of (Finite a, Finite b) \<Rightarrow> Finite (sqrt (a * a + b * b)) | _ \<Rightarrow> NaN))"

text \<open>
  \<open>complex128\<close> with Go's sum and product, part by part.
\<close>

type_synonym complex128 = "float64 \<times> float64"

definition cmplx_Abs :: "complex128 \<Rightarrow> float64" where
  "cmplx_Abs x = Hypot (fst x) (snd x)"

definition cmplx_IsInf :: "complex128 \<Rightarrow> bool" where
  "cmplx_IsInf x = (IsInf (fst x) \<or> IsInf (snd x))"

definition cmplx_IsNaN :: "complex128 \<Rightarrow> bool" where
  "cmplx_IsNaN x =
     (if IsInf (fst x) \<or> IsInf (snd x) then False
      else if IsNaN (fst x) \<or> IsNaN (snd x) then True
      else False)"

definition complex128_add :: "complex128 \<Rightarrow> complex128 \<Rightarrow> complex128" where
  "complex128_add x y = (float64_add (fst x) (fst y), float64_add (snd x) (snd y))"

definition complex128_mul :: "complex128 \<Rightarrow> complex128 \<Rightarrow> complex128" where
  "complex128_mul x y =
     (float64_sub (float64_mul (fst x) (fst y)) (float64_mul (snd x) (snd y)),
      float64_add (float64_mul (fst x) (snd y)) (float64_mul (snd x) (fst y)))"

text \<open>
  The quotient of two \<open>complex128\<close> values is computed by Go's runtime, outside the
  repository. The loop below takes the division as its parameter \<open>quo\<close>, so that what is
  proved of the loop holds whatever the division returns. \<open>complex128div\<close> is the runtime's
  algorithm (Smith's division, then the corrections of C99 G.5.1.6 when both parts come
  out NaN); only the examples use it.
\<close>

definition copysign_inf :: "float64 \<Rightarrow> float64" where
  "copysign_inf c = (if Signbit c then NegInf else PosInf)"

definition inf2one :: "float64 \<Rightarrow> float64" where
  "inf2one f = (if IsInf f then (if Signbit f then Finite (- 1) else Finite 1) else Finite 0)"

definition complex128div :: "complex128 \<Rightarrow> complex128 \<Rightarrow> complex128" where
  "complex128div n m =
     (let (e, f) =
        (if float64_le (float64_abs (snd m)) (float64_abs (fst m))
         then (let ratio = float64_div (snd m) (fst m);
                   denom = float64_add (fst m) (float64_mul ratio (snd m))
               in (float64_div (float64_add (fst n) (float64_mul (snd n) ratio)) denom,
                   float64_div (float64_sub (snd n) (float64_mul (fst n) ratio)) denom))
         else (let ratio = float64_div (fst m) (snd m);
                   denom = float64_add (snd m) (float64_mul ratio (fst m))
               in (float64_div (float64_add (float64_mul (fst n) ratio) (snd n)) denom,
                   float64_div (float64_sub (float64_mul (snd n) ratio) (fst n)) denom)))
      in if IsNaN e \<and> IsNaN f
         then (let a = fst n; b = snd n; c = fst m; d = snd m in
               if m = (Finite 0, Finite 0) \<and> (\<not> IsNaN a \<or> \<not> IsNaN b)
               then (float64_mul (copysign_inf c) a, float64_mul (copysign_inf c) b)
               else if (IsInf a \<or> IsInf b) \<and> isFinite c \<and> isFinite d
               then (let a = inf2one a; b = inf2one b in
                     (float64_mul PosInf (float64_add (float64_mul a c) (float64_mul b d)),
                      float64_mul PosInf (float64_sub (float64_mul b c) (float64_mul a d))))
               else if (IsInf c \<or> IsInf d) \<and> isFinite a \<and> isFinite b
               then (let c = inf2one c; d = inf2one d in
                     (float64_mul (Finite 0) (float64_add (float64_mul a c) (float64_mul b d)),
                      float64_mul (Finite 0) (float64_sub (float64_mul b c) (float64_mul a d))))
               else (e, f))
         else (e, f))"

text \<open>
  \<open>FracData\<close>, \<open>Result\<close>, \<open>JuliaR\<close> and \<open>func (r JuliaR) Frac(loc complex128) *Result\<close>
  over these values. The loop state is \<open>(z, mod, count)\<close>.
\<close>

record FracData64 =
  Radius64 :: float64
  MaxIterations64 :: int
  degree64 :: float64
  logDegreeInv64 :: float64

record Result64 =
  Z64 :: complex128
  C64 :: complex128
  Iterations64 :: int
  NFactor64 :: float64

record JuliaR64 = FracData64 +
  JuliaR64_P :: "complex128 \<Rightarrow> complex128"
  JuliaR64_Q :: "complex128 \<Rightarrow> complex128"
  JuliaR64_C :: complex128

definition JuliaR64_pass ::
  "(complex128 \<Rightarrow> complex128 \<Rightarrow> complex128) \<Rightarrow> 'a JuliaR64_scheme
     \<Rightarrow> complex128 \<times> float64 \<times> int \<Rightarrow> (complex128 \<times> float64 \<times> int) + (complex128 \<times> int)" where
  "JuliaR64_pass quo r s =
     (case s of (z, modz, count) \<Rightarrow>
        if float64_le modz (Radius64 r)
        then (let z = complex128_add (quo (JuliaR64_P r z) (JuliaR64_Q r z)) (JuliaR64_C r) in
              if count = MaxIterations64 r - 1 then Inr (z, count)
              else Inl (z, cmplx_Abs z, count + 1))
        else Inr (z, count))"

definition JuliaR64_Frac ::
  "(complex128 \<Rightarrow> complex128 \<Rightarrow> complex128) \<Rightarrow> 'a JuliaR64_scheme \<Rightarrow> complex128
     \<Rightarrow> Result64 option" where
  "JuliaR64_Frac quo r loc =
     (let z = loc;
          count = 0
      in map_option
           (\<lambda>(z, count). \<lparr>Z64 = z, C64 = JuliaR64_C r, Iterations64 = count, NFactor64 = Finite 0\<rparr>)
           (loop (JuliaR64_pass quo r) (z, cmplx_Abs z, count)))"

subsection \<open>Polynomiograph\<close>

text \<open>
  \<open>type Polynomiograph struct\<close>, \<open>type MandelPG Polynomiograph\<close> and
  \<open>func (m MandelPG) Frac(loc complex128) *Result\<close>. The loop state is \<open>(z, c, count)\<close>.
  The struct's comment writes \<open>B(z\<^sub>n) + c\<^sub>n\<close>; the code subtracts, as modelled.
\<close>

record Polynomiograph = FracData +
  PG_B :: "complex \<Rightarrow> complex"
  PG_F :: "complex \<Rightarrow> complex"
  PG_G :: "complex \<Rightarrow> complex"
  PG_eps :: real

type_synonym MandelPG = Polynomiograph

definition MandelPG_pass ::
  "'a Polynomiograph_scheme \<Rightarrow> complex \<times> complex \<times> int
     \<Rightarrow> (complex \<times> complex \<times> int) + (complex \<times> complex \<times> int)" where
  "MandelPG_pass m s =
     (case s of (z, c, count) \<Rightarrow>
        (let zNext = PG_B m z - c in
         if cmod (zNext - z) < PG_eps m then Inr (z, c, count)
         else (let c = PG_G m c;
                   z = zNext
               in if count = MaxIterations m - 1 then Inr (z, c, count)
                  else Inl (z, c, count + 1))))"

definition MandelPG_Frac :: "'a Polynomiograph_scheme \<Rightarrow> complex \<Rightarrow> Result option" where
  "MandelPG_Frac m loc =
     (let z = loc;
          c = PG_F m loc;
          count = 0
      in map_option (\<lambda>(z, c, count). \<lparr>Z = z, C = c, Iterations = count, NFactor = 0\<rparr>)
           (loop (MandelPG_pass m) (z, c, count)))"

subsection \<open>The Fraccer interface\<close>

text \<open>
  \<open>type Fraccer interface\<close>, with the four implementations of frac.go, and its methods
  \<open>Frac\<close>, \<open>Data\<close> and \<open>SetMaxIterations\<close>.
\<close>

datatype Fraccer =
    Fraccer_Mandelbrot Mandelbrot
  | Fraccer_JuliaQ JuliaQ
  | Fraccer_JuliaR JuliaR
  | Fraccer_MandelPG MandelPG

fun Frac :: "Fraccer \<Rightarrow> complex \<Rightarrow> Result option" where
  "Frac (Fraccer_Mandelbrot m) loc = Mandelbrot_Frac m loc"
| "Frac (Fraccer_JuliaQ j) loc = JuliaQ_Frac j loc"
| "Frac (Fraccer_JuliaR r) loc = JuliaR_Frac r loc"
| "Frac (Fraccer_MandelPG m) loc = MandelPG_Frac m loc"

fun Data :: "Fraccer \<Rightarrow> FracData" where
  "Data (Fraccer_Mandelbrot m) = m"
| "Data (Fraccer_JuliaQ j) = FracData.truncate j"
| "Data (Fraccer_JuliaR r) = FracData.truncate r"
| "Data (Fraccer_MandelPG m) = FracData.truncate m"

fun Fraccer_SetMaxIterations :: "Fraccer \<Rightarrow> int \<Rightarrow> Fraccer \<times> error option" where
  "Fraccer_SetMaxIterations (Fraccer_Mandelbrot m) n =
     (case SetMaxIterations m n of (m', err) \<Rightarrow> (Fraccer_Mandelbrot m', err))"
| "Fraccer_SetMaxIterations (Fraccer_JuliaQ j) n =
     (case SetMaxIterations j n of (j', err) \<Rightarrow> (Fraccer_JuliaQ j', err))"
| "Fraccer_SetMaxIterations (Fraccer_JuliaR r) n =
     (case SetMaxIterations r n of (r', err) \<Rightarrow> (Fraccer_JuliaR r', err))"
| "Fraccer_SetMaxIterations (Fraccer_MandelPG m) n =
     (case SetMaxIterations m n of (m', err) \<Rightarrow> (Fraccer_MandelPG m', err))"

subsection \<open>The dispatcher\<close>

text \<open>
  Modelled from the spec: \<open>DomainReader\<close> is declared outside frac.go. It exposes the
  row and column counts and a point lookup by (column, row) that fails with a
  domain-access fault when the coordinate is out of range.
\<close>

record DomainReader =
  Domain_rows :: int
  Domain_cols :: int
  Domain_point :: "int \<Rightarrow> int \<Rightarrow> complex"

definition Dimensions :: "DomainReader \<Rightarrow> int \<times> int" where
  "Dimensions d = (Domain_rows d, Domain_cols d)"

definition At :: "DomainReader \<Rightarrow> int \<Rightarrow> int \<Rightarrow> error + complex" where
  "At d col row =
     (if 0 \<le> col \<and> col < Domain_cols d \<and> 0 \<le> row \<and> row < Domain_rows d
      then Inr (Domain_point d col row)
      else Inl (errors_New ''domain access fault''))"

text \<open>
  Modelled from the spec: \<open>Results\<close>, \<open>NewResults\<close>, \<open>SetResult\<close> and \<open>Done\<close> are
  declared outside frac.go. The result store is pre-sized by rows, columns and iteration
  capacity, holds one record per written coordinate, and is sealed by \<open>Done\<close>.
\<close>

record Results =
  Results_rows :: int
  Results_cols :: int
  Results_capacity :: int
  Results_records :: "int \<times> int \<rightharpoonup> Result"
  Results_done :: bool

definition NewResults :: "int \<Rightarrow> int \<Rightarrow> int \<Rightarrow> Results" where
  "NewResults rows cols maxIterations =
     \<lparr>Results_rows = rows, Results_cols = cols, Results_capacity = maxIterations,
      Results_records = Map.empty, Results_done = False\<rparr>"

definition SetResult :: "Results \<Rightarrow> int \<Rightarrow> int \<Rightarrow> complex \<Rightarrow> complex \<Rightarrow> int \<Rightarrow> Results" where
  "SetResult rs row col z c iterations =
     rs\<lparr>Results_records := (Results_records rs)
          ((row, col) \<mapsto> \<lparr>Z = z, C = c, Iterations = iterations, NFactor = 0\<rparr>)\<rparr>"

definition Done :: "Results \<Rightarrow> Results" where
  "Done rs = rs\<lparr>Results_done := True\<rparr>"

text \<open>
  \<open>func FracIt(d DomainReader, f Fraccer, iterations int) (*Results, error)\<close>.

  The parallel phase is a transition system. Its state holds the dispatcher's loop
  variable \<open>row\<close> (\<open>next_row\<close>), whether \<open>rowJobs\<close> is closed, the buffered channel's
  content, the result store, a pending panic, and for each worker goroutine where it
  stands: receiving from \<open>rowJobs\<close>, at the test \<open>col < cols\<close> of a row, or returned. An
  action lets the dispatcher or one worker take its next step, and returns \<open>None\<close> when
  that goroutine is blocked or has finished. A schedule is the order in which the
  goroutines take their steps; \<open>numWorkers\<close> is \<open>runtime.NumCPU()\<close>.

  A worker's evaluation of one cell (\<open>d.At\<close>, \<open>f.Frac\<close>, \<open>results.SetResult\<close>) is one
  step: the lookup and \<open>Frac\<close> read only what no goroutine writes during the parallel
  phase, and \<open>SetResult\<close> writes the record of that one coordinate. A panic stops every
  goroutine.
\<close>

datatype worker = Receiving | AtCell int int | Returned

datatype action = Dispatcher | Worker nat

record pool =
  next_row :: int
  closed :: bool
  rowJobs :: "int list"
  workers :: "nat \<Rightarrow> worker"
  pool_results :: Results
  panic :: "error option"

definition pool_step ::
  "nat \<Rightarrow> DomainReader \<Rightarrow> Fraccer \<Rightarrow> int \<Rightarrow> int \<Rightarrow> action \<Rightarrow> pool \<Rightarrow> pool option" where
  "pool_step numWorkers d f rows cols a s =
     (if panic s \<noteq> None then None
      else case a of
        Dispatcher \<Rightarrow>
          if next_row s < rows
          then (if int (length (rowJobs s)) < rows
                then Some (s\<lparr>rowJobs := rowJobs s @ [next_row s], next_row := next_row s + 1\<rparr>)
                else None)
          else if \<not> closed s then Some (s\<lparr>closed := True\<rparr>)
          else None
      | Worker w \<Rightarrow>
          if w < numWorkers
          then (case workers s w of
                  Receiving \<Rightarrow>
                    (case rowJobs s of
                       row # rest \<Rightarrow>
                         Some (s\<lparr>rowJobs := rest, workers := (workers s)(w := AtCell row 0)\<rparr>)
                     | [] \<Rightarrow>
                         if closed s then Some (s\<lparr>workers := (workers s)(w := Returned)\<rparr>)
                         else None)
                | AtCell row col \<Rightarrow>
                    if col < cols
                    then (case At d col row of
                            Inl err \<Rightarrow> Some (s\<lparr>panic := Some err\<rparr>)
                          | Inr loc \<Rightarrow>
                              (case Frac f loc of
                                 None \<Rightarrow> None
                               | Some r \<Rightarrow>
                                   Some (s\<lparr>pool_results := SetResult (pool_results s) row col
                                                         (Z r) (C r) (Iterations r),
                                          workers := (workers s)(w := AtCell row (col + 1))\<rparr>)))
                    else Some (s\<lparr>workers := (workers s)(w := Receiving)\<rparr>)
                | Returned \<Rightarrow> None)
          else None)"

fun pool_run ::
  "nat \<Rightarrow> DomainReader \<Rightarrow> Fraccer \<Rightarrow> int \<Rightarrow> int \<Rightarrow> action list \<Rightarrow> pool \<Rightarrow> pool option" where
  "pool_run numWorkers d f rows cols [] s = Some s"
| "pool_run numWorkers d f rows cols (a # as) s =
     (case pool_step numWorkers d f rows cols a s of
        None \<Rightarrow> None
      | Some s' \<Rightarrow> pool_run numWorkers d f rows cols as s')"

text \<open>
  \<open>wg.Wait()\<close> returns once every worker has returned; the dispatcher reaches it after
  closing the channel.
\<close>

definition wg_Wait_returns :: "nat \<Rightarrow> pool \<Rightarrow> bool" where
  "wg_Wait_returns numWorkers s =
     (panic s = None \<and> closed s \<and> (\<forall>w<numWorkers. workers s w = Returned))"

text \<open>
  \<open>FracIt\<close> returns the variant as \<open>SetMaxIterations\<close> left it and, when it returns, the
  error or the sealed results. The outcome is \<open>None\<close> when the schedule is not a complete
  run of the parallel phase.
\<close>

definition FracIt ::
  "nat \<Rightarrow> action list \<Rightarrow> DomainReader \<Rightarrow> Fraccer \<Rightarrow> int
     \<Rightarrow> Fraccer \<times> (error + Results) option" where
  "FracIt numWorkers schedule d f iterations =
     (case Fraccer_SetMaxIterations f iterations of
        (f, Some err) \<Rightarrow> (f, Some (Inl err))
      | (f, None) \<Rightarrow>
          (case Dimensions d of
             (rows, cols) \<Rightarrow>
               if cols < 1 \<or> rows < 1
               then (f, Some (Inl (errors_New
                      ''gofrac: the domain must be sampled at least once along each axis'')))
               else (let results = NewResults rows cols iterations in
                     case pool_run numWorkers d f rows cols schedule
                            \<lparr>next_row = 0, closed = False, rowJobs = [],
                             workers = (\<lambda>w. Receiving), pool_results = results, panic = None\<rparr> of
                       None \<Rightarrow> (f, None)
                     | Some s \<Rightarrow>
                         if wg_Wait_returns numWorkers s
                         then (f, Some (Inr (Done (pool_results s))))
                         else (f, None))))"

subsection \<open>The recurrences of the specification\<close>

text \<open>
  The specification describes the variants by their recurrences: the quadratic step
  \<open>z\<^sub>n\<^sub>+\<^sub>1 = z\<^sub>n\<^sup>2 + c\<close>, the rational step \<open>z\<^sub>n\<^sub>+\<^sub>1 = P(z\<^sub>n) / Q(z\<^sub>n) + C\<close>, and the
  polynomiograph's coupled step \<open>z\<^sub>n\<^sub>+\<^sub>1 = B(z\<^sub>n) - c\<^sub>n\<close>, \<open>c\<^sub>n\<^sub>+\<^sub>1 = G(c\<^sub>n)\<close> with its
  convergence test \<open>|z\<^sub>n\<^sub>+\<^sub>1 - z\<^sub>n| < eps\<close>.
\<close>

definition quadratic_step :: "complex \<Rightarrow> complex \<Rightarrow> complex" where
  "quadratic_step c z = z * z + c"

definition rational_step :: "'a JuliaR_scheme \<Rightarrow> complex \<Rightarrow> complex" where
  "rational_step r z = JuliaR_P r z / JuliaR_Q r z + JuliaR_C r"

definition rational_step64 ::
  "(complex128 \<Rightarrow> complex128 \<Rightarrow> complex128) \<Rightarrow> 'a JuliaR64_scheme \<Rightarrow> complex128 \<Rightarrow> complex128" where
  "rational_step64 quo r z = complex128_add (quo (JuliaR64_P r z) (JuliaR64_Q r z)) (JuliaR64_C r)"

definition pg_step :: "'a Polynomiograph_scheme \<Rightarrow> complex \<times> complex \<Rightarrow> complex \<times> complex" where
  "pg_step m s = (case s of (z, c) \<Rightarrow> (PG_B m z - c, PG_G m c))"

definition pg_converged :: "'a Polynomiograph_scheme \<Rightarrow> complex \<times> complex \<Rightarrow> bool" where
  "pg_converged m s = (cmod (fst (pg_step m s) - fst s) < PG_eps m)"

subsection \<open>Invariants of the parallel phase\<close>

text \<open>
  \<open>pool_ok\<close>: the control state is consistent. \<open>records_ok\<close>: every record in the store
  lies on the grid and is the variant's result at that coordinate's point.
  \<open>rows_covered\<close>: every row the dispatcher has sent is still queued, in a worker's hands
  with the columns before its position written, or fully written. \<open>pool_work\<close> bounds the
  steps that remain.
\<close>

definition pool_ok :: "nat \<Rightarrow> int \<Rightarrow> pool \<Rightarrow> bool" where
  "pool_ok n rows s \<longleftrightarrow>
     panic s = None \<and> 0 \<le> next_row s \<and> next_row s \<le> rows \<and>
     (closed s \<longrightarrow> next_row s = rows) \<and>
     int (length (rowJobs s)) \<le> next_row s \<and>
     (\<forall>r\<in>set (rowJobs s). 0 \<le> r \<and> r < next_row s) \<and>
     (\<forall>w<n. \<forall>r c. workers s w = AtCell r c \<longrightarrow> 0 \<le> r \<and> r < next_row s \<and> 0 \<le> c) \<and>
     ((\<exists>w<n. workers s w = Returned) \<longrightarrow> closed s \<and> rowJobs s = [])"

definition records_ok :: "DomainReader \<Rightarrow> Fraccer \<Rightarrow> int \<Rightarrow> int \<Rightarrow> pool \<Rightarrow> bool" where
  "records_ok d f rows cols s \<longleftrightarrow>
     (\<forall>row col rec. Results_records (pool_results s) (row, col) = Some rec \<longrightarrow>
        0 \<le> row \<and> row < rows \<and> 0 \<le> col \<and> col < cols \<and>
        (\<exists>r. Frac f (Domain_point d col row) = Some r \<and>
             rec = \<lparr>Z = Z r, C = C r, Iterations = Iterations r, NFactor = 0\<rparr>))"

definition row_started :: "int \<Rightarrow> pool \<Rightarrow> int \<Rightarrow> int \<Rightarrow> bool" where
  "row_started cols s row col \<longleftrightarrow>
     (\<forall>c. 0 \<le> c \<and> c < col \<and> c < cols \<longrightarrow> (row, c) \<in> dom (Results_records (pool_results s)))"

definition rows_covered :: "nat \<Rightarrow> int \<Rightarrow> pool \<Rightarrow> bool" where
  "rows_covered n cols s \<longleftrightarrow>
     (\<forall>row. 0 \<le> row \<and> row < next_row s \<longrightarrow>
        row \<in> set (rowJobs s) \<or>
        (\<exists>w<n. \<exists>col. workers s w = AtCell row col \<and> row_started cols s row col) \<or>
        row_started cols s row cols)"

definition worker_work :: "int \<Rightarrow> worker \<Rightarrow> nat" where
  "worker_work cols w =
     (case w of Receiving \<Rightarrow> 1 | AtCell row col \<Rightarrow> nat (cols - col) + 2 | Returned \<Rightarrow> 0)"

definition pool_work :: "nat \<Rightarrow> int \<Rightarrow> int \<Rightarrow> pool \<Rightarrow> nat" where
  "pool_work n rows cols s =
     (nat cols + 4) * nat (rows - next_row s) + (nat cols + 3) * length (rowJobs s) +
     (if closed s then 0 else 1) + (\<Sum>w<n. worker_work cols (workers s w))"

section \<open>Iteration configuration\<close>

text \<open>
  Claim C8. \<open>SetMaxIterations n\<close> returns an error exactly when \<open>n < 1\<close>; for \<open>n \<ge> 1\<close> it
  succeeds and stores \<open>n\<close> as the maximum iteration count; a failing call leaves the
  configuration, and so the stored count, as it was.
\<close>

theorem SetMaxIterations_spec:
  "(snd (SetMaxIterations f n) \<noteq> None \<longleftrightarrow> n < 1) \<and>
   (1 \<le> n \<longrightarrow> SetMaxIterations f n = (f\<lparr>MaxIterations := n\<rparr>, None)) \<and>
   (n < 1 \<longrightarrow> fst (SetMaxIterations f n) = f)"
  by (simp add: SetMaxIterations_def)

theorem SetMaxIterations_spec_witness:
  "SetMaxIterations \<lparr>Radius = 2, MaxIterations = 7, degree = 2, logDegreeInv = 0\<rparr> 3
     = (\<lparr>Radius = 2, MaxIterations = 3, degree = 2, logDegreeInv = 0\<rparr>, None) \<and>
   fst (SetMaxIterations \<lparr>Radius = 2, MaxIterations = 7, degree = 2, logDegreeInv = 0\<rparr> 0)
     = \<lparr>Radius = 2, MaxIterations = 7, degree = 2, logDegreeInv = 0\<rparr> \<and>
   snd (SetMaxIterations \<lparr>Radius = 2, MaxIterations = 7, degree = 2, logDegreeInv = 0\<rparr> 0) \<noteq> None"
  using SetMaxIterations_spec
          [of "\<lparr>Radius = 2, MaxIterations = 7, degree = 2, logDegreeInv = 0\<rparr>" 3]
        SetMaxIterations_spec
          [of "\<lparr>Radius = 2, MaxIterations = 7, degree = 2, logDegreeInv = 0\<rparr>" 0]
  by simp

section \<open>The squared-modulus helper\<close>

text \<open>
  Claim C1 says that \<open>getMod2 z\<close> is \<open>Re z * Re z + Im z * Im z\<close>. The code adds the
  imaginary part twice instead of squaring it: at \<open>z = -3i\<close> it returns \<open>-6\<close>, where the
  squared modulus is \<open>9\<close>.
\<close>

theorem getMod2_at_minus_3i:
  "getMod2 (Complex 0 (- 3)) = - 6 \<and>
   Re (Complex 0 (- 3)) * Re (Complex 0 (- 3)) + Im (Complex 0 (- 3)) * Im (Complex 0 (- 3)) = 9"
  by (simp add: getMod2_def)

section \<open>Loops that finish\<close>

text \<open>
  A loop that finishes within \<open>n\<close> passes finishes, with the same values.
\<close>

lemma loop_within_loop: "loop_within n pass s = Some r \<Longrightarrow> loop pass s = Some r"
proof (induction n arbitrary: s)
  case 0
  then show ?case by simp
next
  case (Suc n)
  show ?case
  proof (cases "pass s")
    case (Inl s')
    with Suc.prems have "loop_within n pass s' = Some r" by simp
    then have "loop pass s' = Some r" by (rule Suc.IH)
    with Inl show ?thesis by (subst loop.simps) simp
  next
    case (Inr r')
    with Suc.prems show ?thesis by (subst loop.simps) simp
  qed
qed

section \<open>The shared quadratic core\<close>

text \<open>
  The run of the loop from a state with \<open>maxIt - count = m\<close>: it finishes within
  \<open>m + 1\<close> passes, after \<open>n \<le> m + 1\<close> steps of the recurrence, where \<open>n\<close> is the first
  index at which \<open>getMod2\<close> exceeds \<open>r2\<close>, or \<open>m + 1\<close> when there is none below.
\<close>

lemma q_pass_run:
  "maxIt - count = int m \<Longrightarrow>
   \<exists>n\<le>Suc m.
      loop_within (Suc m) (q_pass r2 maxIt c) (z, getMod2 z, count)
        = Some ((quadratic_step c ^^ n) z, if n = Suc m then maxIt else count + int n) \<and>
      (\<forall>i<n. getMod2 ((quadratic_step c ^^ i) z) \<le> r2) \<and>
      (n < Suc m \<longrightarrow> \<not> getMod2 ((quadratic_step c ^^ n) z) \<le> r2)"
proof (induction m arbitrary: z count)
  case 0
  then have eq: "count = maxIt" by simp
  show ?case
  proof (cases "getMod2 z \<le> r2")
    case True
    with eq show ?thesis
      by (intro exI[of _ "Suc 0"]) (simp add: q_pass_def Let_def quadratic_step_def)
  next
    case False
    with eq show ?thesis
      by (intro exI[of _ "0"]) (simp add: q_pass_def Let_def)
  qed
next
  case (Suc m)
  then have ne: "count \<noteq> maxIt" and next_m: "maxIt - (count + 1) = int m" by simp_all
  show ?case
  proof (cases "getMod2 z \<le> r2")
    case False
    then show ?thesis
      by (intro exI[of _ "0"]) (simp add: q_pass_def Let_def)
  next
    case True
    from Suc.IH [OF next_m, of "quadratic_step c z"]
    obtain n where n: "n \<le> Suc m"
      "loop_within (Suc m) (q_pass r2 maxIt c) (quadratic_step c z, getMod2 (quadratic_step c z), count + 1)
        = Some ((quadratic_step c ^^ n) (quadratic_step c z), if n = Suc m then maxIt else count + 1 + int n)"
      "\<forall>i<n. getMod2 ((quadratic_step c ^^ i) (quadratic_step c z)) \<le> r2"
      "n < Suc m \<longrightarrow> \<not> getMod2 ((quadratic_step c ^^ n) (quadratic_step c z)) \<le> r2"
      by blast
    have step: "q_pass r2 maxIt c (z, getMod2 z, count)
                 = Inl (quadratic_step c z, getMod2 (quadratic_step c z), count + 1)"
      using True ne by (simp add: q_pass_def Let_def quadratic_step_def)
    have all: "\<forall>i<Suc n. getMod2 ((quadratic_step c ^^ i) z) \<le> r2"
    proof (intro allI impI)
      fix i assume "i < Suc n"
      then show "getMod2 ((quadratic_step c ^^ i) z) \<le> r2"
        using True n(3) by (cases i) (simp_all del: funpow.simps add: funpow_Suc_right)
    qed
    show ?thesis
      apply (intro exI[of _ "Suc n"] conjI)
      using n(1) apply simp
      using n(2) step apply (simp del: funpow.simps add: funpow_Suc_right)
      using all apply blast
      using n(4) apply (simp del: funpow.simps add: funpow_Suc_right)
      done
  qed
qed

lemma q_within:
  assumes "1 \<le> MaxIterations Q"
  shows "\<exists>z count. loop_within (nat (MaxIterations Q))
             (q_pass (Radius Q * Radius Q) (MaxIterations Q - 1) c) (z0, getMod2 z0, 0)
           = Some (z, count) \<and> 0 \<le> count \<and> count \<le> MaxIterations Q - 1 \<and>
           q Q z0 c = Some \<lparr>Z = z, C = c, Iterations = count, NFactor = 0\<rparr>"
proof -
  define k where "k = nat (MaxIterations Q - 1)"
  have k: "MaxIterations Q - 1 - 0 = int k" "nat (MaxIterations Q) = Suc k"
    using assms by (simp_all add: k_def)
  from q_pass_run [OF k(1), of "Radius Q * Radius Q" c z0]
  obtain n where n: "n \<le> Suc k"
    "loop_within (Suc k) (q_pass (Radius Q * Radius Q) (MaxIterations Q - 1) c) (z0, getMod2 z0, 0)
       = Some ((quadratic_step c ^^ n) z0, if n = Suc k then MaxIterations Q - 1 else 0 + int n)"
    by blast
  have "0 \<le> (if n = Suc k then MaxIterations Q - 1 else 0 + int n)"
       "(if n = Suc k then MaxIterations Q - 1 else 0 + int n) \<le> MaxIterations Q - 1"
    using n(1) k(2) assms by (auto split: if_splits)
  moreover have "q Q z0 c = Some \<lparr>Z = (quadratic_step c ^^ n) z0, C = c,
       Iterations = (if n = Suc k then MaxIterations Q - 1 else 0 + int n), NFactor = 0\<rparr>"
    using loop_within_loop [OF n(2)] by (simp add: q_def)
  ultimately show ?thesis using n(2) k(2) by auto
qed

text \<open>
  Claim C2, as the code has it. For every start \<open>z0\<close>, parameter \<open>c\<close>, radius and
  \<open>MaxIterations \<ge> 1\<close>, the quadratic core returns; it tests \<open>getMod2\<close> of the current
  \<open>z\<close> against \<open>Radius\<^sup>2\<close> before each step and stops at the first \<open>z\<close> that exceeds it; it
  applies at most \<open>MaxIterations\<close> steps of \<open>z\<^sub>n\<^sub>+\<^sub>1 = z\<^sub>n\<^sup>2 + c\<close>; and the count it returns lies
  in \<open>[0, MaxIterations - 1]\<close>: it is the number of steps applied, except after
  \<open>MaxIterations\<close> steps, where it is \<open>MaxIterations - 1\<close>.
\<close>

theorem q_spec:
  assumes "1 \<le> MaxIterations Q"
  shows "\<exists>n r. q Q z0 c = Some r \<and>
           n \<le> nat (MaxIterations Q) \<and>
           Z r = (quadratic_step c ^^ n) z0 \<and> C r = c \<and>
           0 \<le> Iterations r \<and> Iterations r \<le> MaxIterations Q - 1 \<and>
           Iterations r = (if n = nat (MaxIterations Q) then MaxIterations Q - 1 else int n) \<and>
           (\<forall>i<n. getMod2 ((quadratic_step c ^^ i) z0) \<le> Radius Q * Radius Q) \<and>
           (n < nat (MaxIterations Q) \<longrightarrow>
              \<not> getMod2 ((quadratic_step c ^^ n) z0) \<le> Radius Q * Radius Q)"
proof -
  define m where "m = nat (MaxIterations Q - 1)"
  have m: "MaxIterations Q - 1 - 0 = int m" "Suc m = nat (MaxIterations Q)"
    using assms by (simp_all add: m_def)
  from q_pass_run [OF m(1), of "Radius Q * Radius Q" c z0]
  obtain n where n: "n \<le> Suc m"
    "loop_within (Suc m) (q_pass (Radius Q * Radius Q) (MaxIterations Q - 1) c) (z0, getMod2 z0, 0)
       = Some ((quadratic_step c ^^ n) z0, if n = Suc m then MaxIterations Q - 1 else 0 + int n)"
    "\<forall>i<n. getMod2 ((quadratic_step c ^^ i) z0) \<le> Radius Q * Radius Q"
    "n < Suc m \<longrightarrow> \<not> getMod2 ((quadratic_step c ^^ n) z0) \<le> Radius Q * Radius Q"
    by blast
  have run: "q Q z0 c = Some \<lparr>Z = (quadratic_step c ^^ n) z0, C = c,
               Iterations = (if n = Suc m then MaxIterations Q - 1 else int n), NFactor = 0\<rparr>"
    using loop_within_loop [OF n(2)] by (simp add: q_def)
  have range: "0 \<le> (if n = Suc m then MaxIterations Q - 1 else int n)"
              "(if n = Suc m then MaxIterations Q - 1 else int n) \<le> MaxIterations Q - 1"
    using n(1) m(2) assms by (auto split: if_splits)
  show ?thesis
    apply (rule exI [of _ n])
    apply (rule exI [of _ "\<lparr>Z = (quadratic_step c ^^ n) z0, C = c,
               Iterations = (if n = Suc m then MaxIterations Q - 1 else int n), NFactor = 0\<rparr>"])
    using run n(1,3,4) range m(2) by simp
qed

theorem q_spec_witness:
  "\<exists>n r. q \<lparr>Radius = 2, MaxIterations = 3, degree = 2, logDegreeInv = 0\<rparr> 0 2 = Some r \<and>
         n \<le> 3 \<and> Z r = (quadratic_step 2 ^^ n) 0 \<and> C r = 2 \<and>
         0 \<le> Iterations r \<and> Iterations r \<le> 2"
  using q_spec [of "\<lparr>Radius = 2, MaxIterations = 3, degree = 2, logDegreeInv = 0\<rparr>" 0 2]
  by (simp add: numeral_3_eq_3) blast

text \<open>
  The claim's bound of \<open>MaxIterations - 1\<close> steps fails: with \<open>MaxIterations = 1\<close>, start
  \<open>0\<close>, parameter \<open>1\<close> and radius \<open>2\<close>, the bound allows no step, and the core returns the
  first iterate \<open>1\<close>, not the start.
\<close>

theorem q_one_step_at_MaxIterations_1:
  "MaxIterations \<lparr>Radius = 2, MaxIterations = 1, degree = 2, logDegreeInv = 0\<rparr> - 1 = 0 \<and>
   q \<lparr>Radius = 2, MaxIterations = 1, degree = 2, logDegreeInv = 0\<rparr> 0 1
     = Some \<lparr>Z = (quadratic_step 1 ^^ 1) 0, C = 1, Iterations = 0, NFactor = 0\<rparr> \<and>
   (quadratic_step 1 ^^ 1) 0 \<noteq> (quadratic_step 1 ^^ 0) 0"
proof -
  have "loop_within (Suc 0) (q_pass (2 * 2) (1 - 1) 1) (0, getMod2 0, 0) = Some (1, 0)"
    by (simp add: q_pass_def getMod2_def)
  from loop_within_loop [OF this] show ?thesis
    by (simp add: q_def quadratic_step_def)
qed

section \<open>Mandelbrot\<close>

text \<open>
  Claim C4. With \<open>p = Re c - 0.25\<close> and \<open>q = p\<^sup>2 + (Im c)\<^sup>2\<close>: when
  \<open>q (q + p) \<le> (Im c)\<^sup>2 / 4\<close> (main cardioid) or \<open>(Re c + 1)\<^sup>2 + (Im c)\<^sup>2 \<le> 1/16\<close>
  (period-2 bulb), Mandelbrot's \<open>Frac\<close> returns the record with \<open>Z = c\<close>, \<open>C = 0\<close> and
  \<open>Iterations = MaxIterations - 1\<close>, without entering the loop; for every other \<open>c\<close> it
  returns what the quadratic core returns from start \<open>0\<close> with parameter \<open>c\<close>.
\<close>

theorem Mandelbrot_Frac_spec:
  "((let p = Re c - 0.25; q = p\<^sup>2 + (Im c)\<^sup>2 in q * (q + p) \<le> (Im c)\<^sup>2 / 4)
      \<or> (Re c + 1)\<^sup>2 + (Im c)\<^sup>2 \<le> 1 / 16
     \<longrightarrow> Mandelbrot_Frac m c
           = Some \<lparr>Z = c, C = 0, Iterations = MaxIterations m - 1, NFactor = 0\<rparr>) \<and>
   (\<not> ((let p = Re c - 0.25; q = p\<^sup>2 + (Im c)\<^sup>2 in q * (q + p) \<le> (Im c)\<^sup>2 / 4)
      \<or> (Re c + 1)\<^sup>2 + (Im c)\<^sup>2 \<le> 1 / 16)
     \<longrightarrow> Mandelbrot_Frac m c = q m 0 c)"
  by (simp add: Mandelbrot_Frac_def isCardioidOrP2Bulb_def Let_def power2_eq_square)

theorem Mandelbrot_Frac_spec_witness:
  "Mandelbrot_Frac \<lparr>Radius = 2, MaxIterations = 9, degree = 2, logDegreeInv = 0\<rparr> 0
     = Some \<lparr>Z = 0, C = 0, Iterations = 8, NFactor = 0\<rparr> \<and>
   Mandelbrot_Frac \<lparr>Radius = 2, MaxIterations = 9, degree = 2, logDegreeInv = 0\<rparr> (- 1)
     = Some \<lparr>Z = - 1, C = 0, Iterations = 8, NFactor = 0\<rparr> \<and>
   Mandelbrot_Frac \<lparr>Radius = 2, MaxIterations = 9, degree = 2, logDegreeInv = 0\<rparr> 2
     = q \<lparr>Radius = 2, MaxIterations = 9, degree = 2, logDegreeInv = 0\<rparr> 0 2"
  using Mandelbrot_Frac_spec [of 0 "\<lparr>Radius = 2, MaxIterations = 9, degree = 2, logDegreeInv = 0\<rparr>"]
        Mandelbrot_Frac_spec [of "- 1" "\<lparr>Radius = 2, MaxIterations = 9, degree = 2, logDegreeInv = 0\<rparr>"]
        Mandelbrot_Frac_spec [of 2 "\<lparr>Radius = 2, MaxIterations = 9, degree = 2, logDegreeInv = 0\<rparr>"]
  by (simp add: Let_def power2_eq_square)

section \<open>Rational Julia\<close>

lemma JuliaR_pass_run:
  "MaxIterations r - 1 - count = int k \<Longrightarrow>
   \<exists>n\<le>Suc k.
      loop_within (Suc k) (JuliaR_pass r) (z, cmod z, count)
        = Some ((rational_step r ^^ n) z, if n = Suc k then MaxIterations r - 1 else count + int n) \<and>
      (\<forall>i<n. cmod ((rational_step r ^^ i) z) \<le> Radius r) \<and>
      (n < Suc k \<longrightarrow> \<not> cmod ((rational_step r ^^ n) z) \<le> Radius r)"
proof (induction k arbitrary: z count)
  case 0
  then have eq: "count = MaxIterations r - 1" by simp
  show ?case
  proof (cases "cmod z \<le> Radius r")
    case True
    with eq show ?thesis
      by (intro exI[of _ "Suc 0"]) (simp add: JuliaR_pass_def Let_def rational_step_def)
  next
    case False
    with eq show ?thesis
      by (intro exI[of _ "0"]) (simp add: JuliaR_pass_def Let_def)
  qed
next
  case (Suc k)
  then have ne: "count \<noteq> MaxIterations r - 1"
    and next_k: "MaxIterations r - 1 - (count + 1) = int k" by simp_all
  show ?case
  proof (cases "cmod z \<le> Radius r")
    case False
    then show ?thesis
      by (intro exI[of _ "0"]) (simp add: JuliaR_pass_def Let_def)
  next
    case True
    from Suc.IH [OF next_k, of "rational_step r z"]
    obtain n where n: "n \<le> Suc k"
      "loop_within (Suc k) (JuliaR_pass r) (rational_step r z, cmod (rational_step r z), count + 1)
        = Some ((rational_step r ^^ n) (rational_step r z),
                if n = Suc k then MaxIterations r - 1 else count + 1 + int n)"
      "\<forall>i<n. cmod ((rational_step r ^^ i) (rational_step r z)) \<le> Radius r"
      "n < Suc k \<longrightarrow> \<not> cmod ((rational_step r ^^ n) (rational_step r z)) \<le> Radius r"
      by blast
    have step: "JuliaR_pass r (z, cmod z, count)
                 = Inl (rational_step r z, cmod (rational_step r z), count + 1)"
      using True ne by (simp add: JuliaR_pass_def Let_def rational_step_def)
    have all: "\<forall>i<Suc n. cmod ((rational_step r ^^ i) z) \<le> Radius r"
    proof (intro allI impI)
      fix i assume "i < Suc n"
      then show "cmod ((rational_step r ^^ i) z) \<le> Radius r"
        using True n(3) by (cases i) (simp_all del: funpow.simps add: funpow_Suc_right)
    qed
    show ?thesis
      apply (intro exI[of _ "Suc n"] conjI)
      using n(1) apply simp
      using n(2) step apply (simp del: funpow.simps add: funpow_Suc_right)
      using all apply blast
      using n(4) apply (simp del: funpow.simps add: funpow_Suc_right)
      done
  qed
qed

lemma JuliaR_within:
  assumes "1 \<le> MaxIterations r"
  shows "\<exists>z count. loop_within (nat (MaxIterations r)) (JuliaR_pass r) (loc, cmod loc, 0)
           = Some (z, count) \<and> 0 \<le> count \<and> count \<le> MaxIterations r - 1 \<and>
           JuliaR_Frac r loc = Some \<lparr>Z = z, C = JuliaR_C r, Iterations = count, NFactor = 0\<rparr>"
proof -
  define k where "k = nat (MaxIterations r - 1)"
  have k: "MaxIterations r - 1 - 0 = int k" "nat (MaxIterations r) = Suc k"
    using assms by (simp_all add: k_def)
  from JuliaR_pass_run [OF k(1), of loc]
  obtain n where n: "n \<le> Suc k"
    "loop_within (Suc k) (JuliaR_pass r) (loc, cmod loc, 0)
       = Some ((rational_step r ^^ n) loc, if n = Suc k then MaxIterations r - 1 else 0 + int n)"
    by blast
  have "0 \<le> (if n = Suc k then MaxIterations r - 1 else 0 + int n)"
       "(if n = Suc k then MaxIterations r - 1 else 0 + int n) \<le> MaxIterations r - 1"
    using n(1) k(2) assms by (auto split: if_splits)
  moreover have "JuliaR_Frac r loc = Some \<lparr>Z = (rational_step r ^^ n) loc, C = JuliaR_C r,
       Iterations = (if n = Suc k then MaxIterations r - 1 else 0 + int n), NFactor = 0\<rparr>"
    using loop_within_loop [OF n(2)] by (simp add: JuliaR_Frac_def)
  ultimately show ?thesis using n(2) k(2) by auto
qed

text \<open>
  With exact arithmetic, and where no \<open>Q z\<close> on the orbit is \<open>0\<close>: the loop applies at most
  \<open>MaxIterations\<close> steps of the rational recurrence, stopping at the first \<open>z\<close> whose
  modulus exceeds the radius. With \<open>MaxIterations = 1\<close>, \<open>P z = z * z\<close>, \<open>Q z = 4\<close> and
  \<open>C = 1\<close> it returns the first iterate \<open>5/4\<close> of \<open>1\<close>.
\<close>

lemma JuliaR_Frac_run:
  assumes "1 \<le> MaxIterations r"
  shows "\<exists>n res. JuliaR_Frac r loc = Some res \<and>
           n \<le> nat (MaxIterations r) \<and>
           Z res = (rational_step r ^^ n) loc \<and> C res = JuliaR_C r \<and>
           Iterations res = (if n = nat (MaxIterations r) then MaxIterations r - 1 else int n) \<and>
           (\<forall>i<n. cmod ((rational_step r ^^ i) loc) \<le> Radius r) \<and>
           (n < nat (MaxIterations r) \<longrightarrow> \<not> cmod ((rational_step r ^^ n) loc) \<le> Radius r)"
proof -
  define k0 where "k0 = nat (MaxIterations r - 1)"
  have k0: "MaxIterations r - 1 - 0 = int k0" "Suc k0 = nat (MaxIterations r)"
    using assms by (simp_all add: k0_def)
  from JuliaR_pass_run [OF k0(1), of loc]
  obtain n where n: "n \<le> Suc k0"
    "loop_within (Suc k0) (JuliaR_pass r) (loc, cmod loc, 0)
       = Some ((rational_step r ^^ n) loc, if n = Suc k0 then MaxIterations r - 1 else 0 + int n)"
    "\<forall>i<n. cmod ((rational_step r ^^ i) loc) \<le> Radius r"
    "n < Suc k0 \<longrightarrow> \<not> cmod ((rational_step r ^^ n) loc) \<le> Radius r"
    by blast
  have "JuliaR_Frac r loc = Some \<lparr>Z = (rational_step r ^^ n) loc, C = JuliaR_C r,
          Iterations = (if n = Suc k0 then MaxIterations r - 1 else int n), NFactor = 0\<rparr>"
    using loop_within_loop [OF n(2)] by (simp add: JuliaR_Frac_def)
  with n(1,3,4) k0(2) show ?thesis
    by (intro exI [of _ n]) simp
qed

lemma JuliaR_Frac_exact_one_step:
  "JuliaR_Frac \<lparr>Radius = 2, MaxIterations = 1, degree = 0, logDegreeInv = 0,
       JuliaR_P = (\<lambda>z. z * z), JuliaR_Q = (\<lambda>z. 4), JuliaR_C = 1\<rparr> 1
     = Some \<lparr>Z = 5 / 4, C = 1, Iterations = 0, NFactor = 0\<rparr>"
proof -
  have "loop_within (Suc 0) (JuliaR_pass \<lparr>Radius = 2, MaxIterations = 1, degree = 0,
       logDegreeInv = 0, JuliaR_P = (\<lambda>z. z * z), JuliaR_Q = (\<lambda>z. 4), JuliaR_C = 1\<rparr>)
       (1, cmod 1, 0) = Some (5 / 4, 0)"
    by (simp add: JuliaR_pass_def)
  from loop_within_loop [OF this] show ?thesis
    by (simp add: JuliaR_Frac_def)
qed

section \<open>Rational Julia with infinities and not-a-number\<close>

text \<open>
  A value with an infinite or NaN part has modulus \<open>+Inf\<close> or NaN, which Go's \<open><=\<close> puts
  below no radius but \<open>+Inf\<close>; and the sum of such a value and any other has such a part
  again.
\<close>

lemma cmplx_Abs_nonfinite:
  "cmplx_IsInf x \<or> cmplx_IsNaN x \<Longrightarrow> cmplx_Abs x = PosInf \<or> cmplx_Abs x = NaN"
  by (auto simp: cmplx_IsInf_def cmplx_IsNaN_def cmplx_Abs_def Hypot_def split: if_splits)

lemma float64_le_nonfinite:
  "x = PosInf \<or> x = NaN \<Longrightarrow> y \<noteq> PosInf \<Longrightarrow> \<not> float64_le x y"
  by (cases y) (auto simp: float64_le_def)

lemma float64_add_nonfinite:
  "IsInf x \<or> IsNaN x \<Longrightarrow> IsInf (float64_add x y) \<or> IsNaN (float64_add x y)"
  by (cases x; cases y) (auto simp: float64_add_def IsInf_def IsNaN_def)

lemma complex128_add_nonfinite:
  assumes "cmplx_IsInf x \<or> cmplx_IsNaN x"
  shows "cmplx_IsInf (complex128_add x y) \<or> cmplx_IsNaN (complex128_add x y)"
proof -
  from assms have "(IsInf (fst x) \<or> IsNaN (fst x)) \<or> (IsInf (snd x) \<or> IsNaN (snd x))"
    by (auto simp: cmplx_IsInf_def cmplx_IsNaN_def split: if_splits)
  then have "(IsInf (float64_add (fst x) (fst y)) \<or> IsNaN (float64_add (fst x) (fst y))) \<or>
             (IsInf (float64_add (snd x) (snd y)) \<or> IsNaN (float64_add (snd x) (snd y)))"
    using float64_add_nonfinite [of "fst x" "fst y"] float64_add_nonfinite [of "snd x" "snd y"]
    by blast
  then show ?thesis
    by (auto simp: cmplx_IsInf_def cmplx_IsNaN_def complex128_add_def)
qed

lemma escaped_nonfinite:
  assumes "cmplx_IsInf x \<or> cmplx_IsNaN x" and "radius \<noteq> PosInf"
  shows "\<not> float64_le (cmplx_Abs (complex128_add x y)) radius"
  using float64_le_nonfinite [OF cmplx_Abs_nonfinite [OF complex128_add_nonfinite [OF assms(1)]]
          assms(2)] .

lemma JuliaR64_pass_run:
  "MaxIterations64 r - 1 - count = int k \<Longrightarrow>
   \<exists>n\<le>Suc k.
      loop_within (Suc k) (JuliaR64_pass quo r) (z, cmplx_Abs z, count)
        = Some ((rational_step64 quo r ^^ n) z,
                if n = Suc k then MaxIterations64 r - 1 else count + int n) \<and>
      (\<forall>i<n. float64_le (cmplx_Abs ((rational_step64 quo r ^^ i) z)) (Radius64 r)) \<and>
      (n < Suc k \<longrightarrow> \<not> float64_le (cmplx_Abs ((rational_step64 quo r ^^ n) z)) (Radius64 r))"
proof (induction k arbitrary: z count)
  case 0
  then have eq: "count = MaxIterations64 r - 1" by simp
  show ?case
  proof (cases "float64_le (cmplx_Abs z) (Radius64 r)")
    case True
    with eq show ?thesis
      by (intro exI[of _ "Suc 0"]) (simp add: JuliaR64_pass_def Let_def rational_step64_def)
  next
    case False
    with eq show ?thesis
      by (intro exI[of _ "0"]) (simp add: JuliaR64_pass_def Let_def)
  qed
next
  case (Suc k)
  then have ne: "count \<noteq> MaxIterations64 r - 1"
    and next_k: "MaxIterations64 r - 1 - (count + 1) = int k" by simp_all
  show ?case
  proof (cases "float64_le (cmplx_Abs z) (Radius64 r)")
    case False
    then show ?thesis
      by (intro exI[of _ "0"]) (simp add: JuliaR64_pass_def Let_def)
  next
    case True
    from Suc.IH [OF next_k, of "rational_step64 quo r z"]
    obtain n where n: "n \<le> Suc k"
      "loop_within (Suc k) (JuliaR64_pass quo r)
           (rational_step64 quo r z, cmplx_Abs (rational_step64 quo r z), count + 1)
        = Some ((rational_step64 quo r ^^ n) (rational_step64 quo r z),
                if n = Suc k then MaxIterations64 r - 1 else count + 1 + int n)"
      "\<forall>i<n. float64_le (cmplx_Abs ((rational_step64 quo r ^^ i) (rational_step64 quo r z)))
               (Radius64 r)"
      "n < Suc k \<longrightarrow>
         \<not> float64_le (cmplx_Abs ((rational_step64 quo r ^^ n) (rational_step64 quo r z)))
             (Radius64 r)"
      by blast
    have step: "JuliaR64_pass quo r (z, cmplx_Abs z, count)
                 = Inl (rational_step64 quo r z, cmplx_Abs (rational_step64 quo r z), count + 1)"
      using True ne by (simp add: JuliaR64_pass_def Let_def rational_step64_def)
    have all: "\<forall>i<Suc n. float64_le (cmplx_Abs ((rational_step64 quo r ^^ i) z)) (Radius64 r)"
    proof (intro allI impI)
      fix i assume "i < Suc n"
      then show "float64_le (cmplx_Abs ((rational_step64 quo r ^^ i) z)) (Radius64 r)"
        using True n(3) by (cases i) (simp_all del: funpow.simps add: funpow_Suc_right)
    qed
    show ?thesis
      apply (intro exI[of _ "Suc n"] conjI)
      using n(1) apply simp
      using n(2) step apply (simp del: funpow.simps add: funpow_Suc_right)
      using all apply blast
      using n(4) apply (simp del: funpow.simps add: funpow_Suc_right)
      done
  qed
qed

text \<open>
  Claim C7, as the code has it. With \<open>MaxIterations \<ge> 1\<close> and whatever the division
  returns, rational Julia's \<open>Frac\<close> returns a record and no error; it iterates
  \<open>z\<^sub>n\<^sub>+\<^sub>1 = P(z\<^sub>n) / Q(z\<^sub>n) + C\<close>, tests the modulus of the current \<open>z\<close> against the radius
  before each step and stops at the first \<open>z\<close> that exceeds it, or after \<open>MaxIterations\<close>
  steps; the count lies in \<open>[0, MaxIterations - 1]\<close>. When the division of a step that is
  not the \<open>MaxIterations\<close>-th produces an infinite or NaN value and the radius is not
  \<open>+Inf\<close>, the modulus test that follows fails for the value of that step, and the loop
  ends there, with that value and the number of steps as the count.
\<close>

theorem JuliaR64_Frac_spec:
  assumes "1 \<le> MaxIterations64 r"
  shows "\<exists>n res. JuliaR64_Frac quo r loc = Some res \<and>
           n \<le> nat (MaxIterations64 r) \<and>
           Z64 res = (rational_step64 quo r ^^ n) loc \<and> C64 res = JuliaR64_C r \<and>
           0 \<le> Iterations64 res \<and> Iterations64 res \<le> MaxIterations64 r - 1 \<and>
           Iterations64 res
             = (if n = nat (MaxIterations64 r) then MaxIterations64 r - 1 else int n) \<and>
           (\<forall>i<n. float64_le (cmplx_Abs ((rational_step64 quo r ^^ i) loc)) (Radius64 r)) \<and>
           (n < nat (MaxIterations64 r) \<longrightarrow>
              \<not> float64_le (cmplx_Abs ((rational_step64 quo r ^^ n) loc)) (Radius64 r)) \<and>
           (\<forall>k. k < n \<and> Suc k < nat (MaxIterations64 r) \<and> Radius64 r \<noteq> PosInf \<and>
                (cmplx_IsInf (quo (JuliaR64_P r ((rational_step64 quo r ^^ k) loc))
                                  (JuliaR64_Q r ((rational_step64 quo r ^^ k) loc))) \<or>
                 cmplx_IsNaN (quo (JuliaR64_P r ((rational_step64 quo r ^^ k) loc))
                                  (JuliaR64_Q r ((rational_step64 quo r ^^ k) loc))))
                \<longrightarrow> \<not> float64_le (cmplx_Abs ((rational_step64 quo r ^^ Suc k) loc)) (Radius64 r) \<and>
                    n = Suc k \<and> Iterations64 res = int (Suc k))"
proof -
  define k0 where "k0 = nat (MaxIterations64 r - 1)"
  have k0: "MaxIterations64 r - 1 - 0 = int k0" "Suc k0 = nat (MaxIterations64 r)"
    using assms by (simp_all add: k0_def)
  from JuliaR64_pass_run [OF k0(1), of quo loc]
  obtain n where n: "n \<le> Suc k0"
    "loop_within (Suc k0) (JuliaR64_pass quo r) (loc, cmplx_Abs loc, 0)
       = Some ((rational_step64 quo r ^^ n) loc,
               if n = Suc k0 then MaxIterations64 r - 1 else 0 + int n)"
    "\<forall>i<n. float64_le (cmplx_Abs ((rational_step64 quo r ^^ i) loc)) (Radius64 r)"
    "n < Suc k0 \<longrightarrow> \<not> float64_le (cmplx_Abs ((rational_step64 quo r ^^ n) loc)) (Radius64 r)"
    by blast
  define res where "res = \<lparr>Z64 = (rational_step64 quo r ^^ n) loc, C64 = JuliaR64_C r,
       Iterations64 = (if n = Suc k0 then MaxIterations64 r - 1 else int n),
       NFactor64 = Finite 0\<rparr>"
  have run: "JuliaR64_Frac quo r loc = Some res"
    using loop_within_loop [OF n(2)] by (simp add: JuliaR64_Frac_def res_def)
  have range: "0 \<le> Iterations64 res" "Iterations64 res \<le> MaxIterations64 r - 1"
    using n(1) k0(2) assms by (auto simp: res_def split: if_splits)
  have nonfinite: "\<not> float64_le (cmplx_Abs ((rational_step64 quo r ^^ Suc k) loc)) (Radius64 r) \<and>
                   n = Suc k \<and> Iterations64 res = int (Suc k)"
    if k: "k < n" "Suc k < nat (MaxIterations64 r)" "Radius64 r \<noteq> PosInf"
       "cmplx_IsInf (quo (JuliaR64_P r ((rational_step64 quo r ^^ k) loc))
                         (JuliaR64_Q r ((rational_step64 quo r ^^ k) loc))) \<or>
        cmplx_IsNaN (quo (JuliaR64_P r ((rational_step64 quo r ^^ k) loc))
                         (JuliaR64_Q r ((rational_step64 quo r ^^ k) loc)))" for k
  proof -
    have "(rational_step64 quo r ^^ Suc k) loc
            = complex128_add (quo (JuliaR64_P r ((rational_step64 quo r ^^ k) loc))
                                  (JuliaR64_Q r ((rational_step64 quo r ^^ k) loc))) (JuliaR64_C r)"
      by (simp add: rational_step64_def)
    with escaped_nonfinite [OF k(4,3)]
    have esc: "\<not> float64_le (cmplx_Abs ((rational_step64 quo r ^^ Suc k) loc)) (Radius64 r)"
      by simp
    with n(3) have "\<not> Suc k < n" by blast
    with k(1) have "n = Suc k" by simp
    with esc k(2) k0(2) show ?thesis by (simp add: res_def)
  qed
  show ?thesis
    apply (rule exI [of _ n])
    apply (rule exI [of _ res])
    apply (intro conjI)
    using run apply simp
    using n(1) k0(2) apply simp
    apply (simp add: res_def)
    apply (simp add: res_def)
    using range(1) apply simp
    using range(2) apply simp
    using k0(2) apply (simp add: res_def)
    using n(3) apply simp
    using n(4) k0(2) apply simp
    using nonfinite apply blast
    done
qed

lemmas float64_eval =
  complex128div_def complex128_add_def complex128_mul_def cmplx_Abs_def Hypot_def
  float64_le_def float64_abs_def float64_div_def float64_add_def float64_mul_def
  float64_sub_def float64_neg_def IsNaN_def IsInf_def isFinite_def Signbit_def
  copysign_inf_def inf2one_def

theorem JuliaR64_Frac_spec_witness:
  "\<exists>res. JuliaR64_Frac complex128div \<lparr>Radius64 = Finite 2, MaxIterations64 = 5,
          degree64 = Finite 0, logDegreeInv64 = Finite 0,
          JuliaR64_P = (\<lambda>z. (Finite 1, Finite 0)), JuliaR64_Q = (\<lambda>z. z),
          JuliaR64_C = (Finite 0, Finite 0)\<rparr> (Finite 0, Finite 0) = Some res \<and>
        Z64 res = (PosInf, NaN) \<and> Iterations64 res = 1"
proof -
  let ?r = "\<lparr>Radius64 = Finite 2, MaxIterations64 = 5,
          degree64 = Finite 0, logDegreeInv64 = Finite 0,
          JuliaR64_P = (\<lambda>z. (Finite 1, Finite 0)), JuliaR64_Q = (\<lambda>z. z),
          JuliaR64_C = (Finite 0, Finite 0)\<rparr>"
  let ?loc = "(Finite 0, Finite 0)"
  have quo: "complex128div (JuliaR64_P ?r ?loc) (JuliaR64_Q ?r ?loc) = (PosInf, NaN)"
    by (simp add: float64_eval Let_def)
  have step: "(rational_step64 complex128div ?r ^^ Suc 0) ?loc = (PosInf, NaN)"
    using quo by (simp add: rational_step64_def complex128_add_def float64_add_def)
  have first: "float64_le (cmplx_Abs ?loc) (Radius64 ?r)"
    by (simp add: float64_eval)
  have m: "1 \<le> MaxIterations64 ?r" by simp
  from JuliaR64_Frac_spec [OF m, of complex128div ?loc]
  obtain n res where res: "JuliaR64_Frac complex128div ?r ?loc = Some res"
    "Z64 res = (rational_step64 complex128div ?r ^^ n) ?loc"
    "n < nat (MaxIterations64 ?r) \<longrightarrow>
       \<not> float64_le (cmplx_Abs ((rational_step64 complex128div ?r ^^ n) ?loc)) (Radius64 ?r)"
    "\<forall>k. k < n \<and> Suc k < nat (MaxIterations64 ?r) \<and> Radius64 ?r \<noteq> PosInf \<and>
         (cmplx_IsInf (complex128div
              (JuliaR64_P ?r ((rational_step64 complex128div ?r ^^ k) ?loc))
              (JuliaR64_Q ?r ((rational_step64 complex128div ?r ^^ k) ?loc))) \<or>
          cmplx_IsNaN (complex128div
              (JuliaR64_P ?r ((rational_step64 complex128div ?r ^^ k) ?loc))
              (JuliaR64_Q ?r ((rational_step64 complex128div ?r ^^ k) ?loc))))
         \<longrightarrow> \<not> float64_le (cmplx_Abs ((rational_step64 complex128div ?r ^^ Suc k) ?loc))
                 (Radius64 ?r) \<and>
             n = Suc k \<and> Iterations64 res = int (Suc k)"
    by blast
  have "0 < n"
  proof (rule ccontr)
    assume "\<not> 0 < n"
    then have "n = 0" by simp
    with res(3) first show False by simp
  qed
  moreover have "cmplx_IsInf (complex128div (JuliaR64_P ?r ((rational_step64 complex128div ?r ^^ 0) ?loc))
              (JuliaR64_Q ?r ((rational_step64 complex128div ?r ^^ 0) ?loc)))"
    using quo by (simp add: cmplx_IsInf_def IsInf_def)
  ultimately have "n = Suc 0 \<and> Iterations64 res = int (Suc 0)"
    using res(4) [rule_format, of 0] by simp
  with res(1,2) step show ?thesis by simp
qed

text \<open>
  The claim's bound of \<open>MaxIterations - 1\<close> steps fails: with \<open>MaxIterations = 1\<close>,
  \<open>P z = z * z\<close>, \<open>Q z = 4\<close>, \<open>C = 1\<close> and radius \<open>2\<close>, the bound allows no step, and
  \<open>Frac\<close> at \<open>1\<close> returns the first iterate \<open>5/4\<close>.
\<close>

theorem JuliaR64_Frac_one_step_at_MaxIterations_1:
  "MaxIterations64 \<lparr>Radius64 = Finite 2, MaxIterations64 = 1, degree64 = Finite 0,
       logDegreeInv64 = Finite 0, JuliaR64_P = (\<lambda>z. complex128_mul z z),
       JuliaR64_Q = (\<lambda>z. (Finite 4, Finite 0)), JuliaR64_C = (Finite 1, Finite 0)\<rparr> - 1 = 0 \<and>
   JuliaR64_Frac complex128div \<lparr>Radius64 = Finite 2, MaxIterations64 = 1, degree64 = Finite 0,
       logDegreeInv64 = Finite 0, JuliaR64_P = (\<lambda>z. complex128_mul z z),
       JuliaR64_Q = (\<lambda>z. (Finite 4, Finite 0)), JuliaR64_C = (Finite 1, Finite 0)\<rparr>
       (Finite 1, Finite 0)
     = Some \<lparr>Z64 = (Finite (5 / 4), Finite 0), C64 = (Finite 1, Finite 0), Iterations64 = 0,
             NFactor64 = Finite 0\<rparr> \<and>
   (rational_step64 complex128div \<lparr>Radius64 = Finite 2, MaxIterations64 = 1,
       degree64 = Finite 0, logDegreeInv64 = Finite 0, JuliaR64_P = (\<lambda>z. complex128_mul z z),
       JuliaR64_Q = (\<lambda>z. (Finite 4, Finite 0)), JuliaR64_C = (Finite 1, Finite 0)\<rparr> ^^ 1)
       (Finite 1, Finite 0)
     = (Finite (5 / 4), Finite 0)"
proof -
  let ?r = "\<lparr>Radius64 = Finite 2, MaxIterations64 = 1, degree64 = Finite 0,
       logDegreeInv64 = Finite 0, JuliaR64_P = (\<lambda>z. complex128_mul z z),
       JuliaR64_Q = (\<lambda>z. (Finite 4, Finite 0)), JuliaR64_C = (Finite 1, Finite 0)\<rparr>"
  have step: "rational_step64 complex128div ?r (Finite 1, Finite 0) = (Finite (5 / 4), Finite 0)"
    by (simp add: rational_step64_def float64_eval Let_def)
  have "loop_within (Suc 0) (JuliaR64_pass complex128div ?r)
          ((Finite 1, Finite 0), cmplx_Abs (Finite 1, Finite 0), 0)
        = Some ((Finite (5 / 4), Finite 0), 0)"
    using step by (simp add: JuliaR64_pass_def rational_step64_def cmplx_Abs_def Hypot_def
        IsInf_def IsNaN_def float64_le_def)
  from loop_within_loop [OF this] step show ?thesis
    by (simp add: JuliaR64_Frac_def)
qed

text \<open>
  The two exceptions are needed. A value that is not finite and comes from the
  \<open>MaxIterations\<close>-th step is returned untested, with the count \<open>MaxIterations - 1\<close> of an
  orbit that stayed inside the radius; and under the radius \<open>+Inf\<close> an infinite value
  passes every modulus test.
\<close>

lemma JuliaR64_Frac_last_step_untested:
  "JuliaR64_Frac complex128div \<lparr>Radius64 = Finite 2, MaxIterations64 = 2,
       degree64 = Finite 0, logDegreeInv64 = Finite 0,
       JuliaR64_P = (\<lambda>z. (Finite 1, Finite 0)),
       JuliaR64_Q = (\<lambda>z. complex128_add z (Finite (- 1), Finite 0)),
       JuliaR64_C = (Finite 2, Finite 0)\<rparr> (Finite 0, Finite 0)
     = Some \<lparr>Z64 = (PosInf, NaN), C64 = (Finite 2, Finite 0), Iterations64 = 1,
             NFactor64 = Finite 0\<rparr>"
proof -
  let ?r = "\<lparr>Radius64 = Finite 2, MaxIterations64 = 2,
       degree64 = Finite 0, logDegreeInv64 = Finite 0,
       JuliaR64_P = (\<lambda>z. (Finite 1, Finite 0)),
       JuliaR64_Q = (\<lambda>z. complex128_add z (Finite (- 1), Finite 0)),
       JuliaR64_C = (Finite 2, Finite 0)\<rparr>"
  have s1: "rational_step64 complex128div ?r (Finite 0, Finite 0) = (Finite 1, Finite 0)"
    by (simp add: rational_step64_def float64_eval Let_def)
  have s2: "rational_step64 complex128div ?r (Finite 1, Finite 0) = (PosInf, NaN)"
    by (simp add: rational_step64_def float64_eval Let_def)
  have "loop_within (Suc (Suc 0)) (JuliaR64_pass complex128div ?r)
          ((Finite 0, Finite 0), cmplx_Abs (Finite 0, Finite 0), 0)
        = Some ((PosInf, NaN), 1)"
    using s1 s2 by (simp add: JuliaR64_pass_def rational_step64_def cmplx_Abs_def Hypot_def
        IsInf_def IsNaN_def float64_le_def)
  from loop_within_loop [OF this] show ?thesis
    by (simp add: JuliaR64_Frac_def)
qed

lemma JuliaR64_Frac_infinite_radius:
  "JuliaR64_Frac complex128div \<lparr>Radius64 = PosInf, MaxIterations64 = 3,
       degree64 = Finite 0, logDegreeInv64 = Finite 0,
       JuliaR64_P = (\<lambda>z. (Finite 1, Finite 0)),
       JuliaR64_Q = (\<lambda>z. (Finite 0, Finite 0)),
       JuliaR64_C = (Finite 0, Finite 0)\<rparr> (Finite 0, Finite 0)
     = Some \<lparr>Z64 = (PosInf, NaN), C64 = (Finite 0, Finite 0), Iterations64 = 2,
             NFactor64 = Finite 0\<rparr>"
proof -
  let ?r = "\<lparr>Radius64 = PosInf, MaxIterations64 = 3,
       degree64 = Finite 0, logDegreeInv64 = Finite 0,
       JuliaR64_P = (\<lambda>z. (Finite 1, Finite 0)),
       JuliaR64_Q = (\<lambda>z. (Finite 0, Finite 0)),
       JuliaR64_C = (Finite 0, Finite 0)\<rparr>"
  have s: "rational_step64 complex128div ?r z = (PosInf, NaN)" for z
    by (simp add: rational_step64_def float64_eval Let_def)
  have "loop_within (Suc (Suc (Suc 0))) (JuliaR64_pass complex128div ?r)
          ((Finite 0, Finite 0), cmplx_Abs (Finite 0, Finite 0), 0)
        = Some ((PosInf, NaN), 2)"
    using s by (simp add: JuliaR64_pass_def rational_step64_def cmplx_Abs_def Hypot_def
        IsInf_def IsNaN_def float64_le_def)
  from loop_within_loop [OF this] show ?thesis
    by (simp add: JuliaR64_Frac_def)
qed

section \<open>Polynomiograph\<close>

lemma MandelPG_pass_stop:
  "pg_converged m (z, c) \<Longrightarrow> MandelPG_pass m (z, c, count) = Inr (z, c, count)"
  by (simp add: MandelPG_pass_def pg_converged_def pg_step_def Let_def)

lemma MandelPG_pass_last:
  "\<not> pg_converged m (z, c) \<Longrightarrow> count = MaxIterations m - 1 \<Longrightarrow>
   MandelPG_pass m (z, c, count) = Inr (fst (pg_step m (z, c)), snd (pg_step m (z, c)), count)"
  by (simp add: MandelPG_pass_def pg_converged_def pg_step_def Let_def)

lemma MandelPG_pass_next:
  "\<not> pg_converged m (z, c) \<Longrightarrow> count \<noteq> MaxIterations m - 1 \<Longrightarrow>
   MandelPG_pass m (z, c, count) = Inl (fst (pg_step m (z, c)), snd (pg_step m (z, c)), count + 1)"
  by (simp add: MandelPG_pass_def pg_converged_def pg_step_def Let_def)

lemma MandelPG_pass_run:
  "MaxIterations m - 1 - count = int k \<Longrightarrow>
   \<exists>n\<le>Suc k.
      loop_within (Suc k) (MandelPG_pass m) (fst s, snd s, count)
        = Some (fst ((pg_step m ^^ n) s), snd ((pg_step m ^^ n) s),
                if n = Suc k then MaxIterations m - 1 else count + int n) \<and>
      (\<forall>i<n. \<not> pg_converged m ((pg_step m ^^ i) s)) \<and>
      (n < Suc k \<longrightarrow> pg_converged m ((pg_step m ^^ n) s))"
proof (induction k arbitrary: s count)
  case 0
  then have eq: "count = MaxIterations m - 1" by simp
  show ?case
  proof (cases "pg_converged m s")
    case True
    then show ?thesis
      using MandelPG_pass_stop [of m "fst s" "snd s" count]
      by (intro exI[of _ "0"]) simp
  next
    case False
    then show ?thesis
      using MandelPG_pass_last [of m "fst s" "snd s" count] eq
      by (intro exI[of _ "Suc 0"]) simp
  qed
next
  case (Suc k)
  then have ne: "count \<noteq> MaxIterations m - 1"
    and next_k: "MaxIterations m - 1 - (count + 1) = int k" by simp_all
  show ?case
  proof (cases "pg_converged m s")
    case True
    then show ?thesis
      using MandelPG_pass_stop [of m "fst s" "snd s" count]
      by (intro exI[of _ "0"]) simp
  next
    case False
    from Suc.IH [OF next_k, of "pg_step m s"]
    obtain n where n: "n \<le> Suc k"
      "loop_within (Suc k) (MandelPG_pass m) (fst (pg_step m s), snd (pg_step m s), count + 1)
        = Some (fst ((pg_step m ^^ n) (pg_step m s)), snd ((pg_step m ^^ n) (pg_step m s)),
                if n = Suc k then MaxIterations m - 1 else count + 1 + int n)"
      "\<forall>i<n. \<not> pg_converged m ((pg_step m ^^ i) (pg_step m s))"
      "n < Suc k \<longrightarrow> pg_converged m ((pg_step m ^^ n) (pg_step m s))"
      by blast
    have step: "MandelPG_pass m (fst s, snd s, count)
                 = Inl (fst (pg_step m s), snd (pg_step m s), count + 1)"
      using MandelPG_pass_next [of m "fst s" "snd s" count] False ne by simp
    have all: "\<forall>i<Suc n. \<not> pg_converged m ((pg_step m ^^ i) s)"
    proof (intro allI impI)
      fix i assume "i < Suc n"
      then show "\<not> pg_converged m ((pg_step m ^^ i) s)"
        using False n(3) by (cases i) (simp_all del: funpow.simps add: funpow_Suc_right)
    qed
    show ?thesis
      apply (intro exI[of _ "Suc n"] conjI)
      using n(1) apply simp
      using n(2) step apply (simp del: funpow.simps add: funpow_Suc_right)
      using all apply blast
      using n(4) apply (simp del: funpow.simps add: funpow_Suc_right)
      done
  qed
qed

lemma MandelPG_converge_run:
  "pg_converged m ((pg_step m ^^ k) s) \<Longrightarrow>
   \<forall>i<k. \<not> pg_converged m ((pg_step m ^^ i) s) \<and> count + int i \<noteq> MaxIterations m - 1 \<Longrightarrow>
   loop_within (Suc k) (MandelPG_pass m) (fst s, snd s, count)
     = Some (fst ((pg_step m ^^ k) s), snd ((pg_step m ^^ k) s), count + int k)"
proof (induction k arbitrary: s count)
  case 0
  then show ?case
    using MandelPG_pass_stop [of m "fst s" "snd s" count] by simp
next
  case (Suc k)
  from Suc.prems(2) have first: "\<not> pg_converged m s" "count \<noteq> MaxIterations m - 1"
    by force+
  have step: "MandelPG_pass m (fst s, snd s, count)
               = Inl (fst (pg_step m s), snd (pg_step m s), count + 1)"
    using MandelPG_pass_next [of m "fst s" "snd s" count] first by simp
  have conv: "pg_converged m ((pg_step m ^^ k) (pg_step m s))"
    using Suc.prems(1) by (simp del: funpow.simps add: funpow_Suc_right)
  have rest: "\<forall>i<k. \<not> pg_converged m ((pg_step m ^^ i) (pg_step m s)) \<and>
                    count + 1 + int i \<noteq> MaxIterations m - 1"
  proof (intro allI impI)
    fix i assume "i < k"
    then have "Suc i < Suc k" by simp
    with Suc.prems(2) have "\<not> pg_converged m ((pg_step m ^^ Suc i) s) \<and>
                            count + int (Suc i) \<noteq> MaxIterations m - 1" by blast
    then show "\<not> pg_converged m ((pg_step m ^^ i) (pg_step m s)) \<and>
               count + 1 + int i \<noteq> MaxIterations m - 1"
      by (simp del: funpow.simps add: funpow_Suc_right add.commute add.left_commute)
  qed
  from Suc.IH [OF conv rest] step show ?case
    by (simp del: funpow.simps add: funpow_Suc_right add.commute add.left_commute)
qed

lemma MandelPG_within:
  assumes "1 \<le> MaxIterations m"
  shows "\<exists>z c count. loop_within (nat (MaxIterations m)) (MandelPG_pass m) (loc, PG_F m loc, 0)
           = Some (z, c, count) \<and> 0 \<le> count \<and> count \<le> MaxIterations m - 1 \<and>
           MandelPG_Frac m loc = Some \<lparr>Z = z, C = c, Iterations = count, NFactor = 0\<rparr>"
proof -
  define k where "k = nat (MaxIterations m - 1)"
  have k: "MaxIterations m - 1 - 0 = int k" "nat (MaxIterations m) = Suc k"
    using assms by (simp_all add: k_def)
  from MandelPG_pass_run [OF k(1), of "(loc, PG_F m loc)"]
  obtain n where n: "n \<le> Suc k"
    "loop_within (Suc k) (MandelPG_pass m) (loc, PG_F m loc, 0)
       = Some (fst ((pg_step m ^^ n) (loc, PG_F m loc)), snd ((pg_step m ^^ n) (loc, PG_F m loc)),
               if n = Suc k then MaxIterations m - 1 else 0 + int n)"
    by auto
  have "0 \<le> (if n = Suc k then MaxIterations m - 1 else 0 + int n)"
       "(if n = Suc k then MaxIterations m - 1 else 0 + int n) \<le> MaxIterations m - 1"
    using n(1) k(2) assms by (auto split: if_splits)
  moreover have "MandelPG_Frac m loc = Some \<lparr>Z = fst ((pg_step m ^^ n) (loc, PG_F m loc)),
       C = snd ((pg_step m ^^ n) (loc, PG_F m loc)),
       Iterations = (if n = Suc k then MaxIterations m - 1 else 0 + int n), NFactor = 0\<rparr>"
    using loop_within_loop [OF n(2)] by (simp add: MandelPG_Frac_def)
  ultimately show ?thesis using n(2) k(2) by auto
qed

text \<open>
  Claim C6, as the code has it. With \<open>MaxIterations \<ge> 1\<close>, the polynomiograph starts
  from \<open>z\<^sub>0 = loc\<close>, \<open>c\<^sub>0 = F loc\<close>; each step computes \<open>z\<^sub>n\<^sub>+\<^sub>1 = B z\<^sub>n - c\<^sub>n\<close>, stops when
  \<open>|z\<^sub>n\<^sub>+\<^sub>1 - z\<^sub>n| < eps\<close>, and otherwise advances to \<open>z\<^sub>n\<^sub>+\<^sub>1\<close> and \<open>c\<^sub>n\<^sub>+\<^sub>1 = G c\<^sub>n\<close>; it
  advances at most \<open>MaxIterations\<close> times; and when the convergence test first holds at
  step \<open>k \<le> MaxIterations - 1\<close> (steps counted from \<open>0\<close>), the count returned is \<open>k\<close>.
\<close>

theorem MandelPG_Frac_spec:
  assumes "1 \<le> MaxIterations m"
  shows "\<exists>n r. MandelPG_Frac m loc = Some r \<and>
           n \<le> nat (MaxIterations m) \<and>
           (Z r, C r) = (pg_step m ^^ n) (loc, PG_F m loc) \<and>
           (\<forall>i<n. \<not> pg_converged m ((pg_step m ^^ i) (loc, PG_F m loc))) \<and>
           (n < nat (MaxIterations m) \<longrightarrow> pg_converged m ((pg_step m ^^ n) (loc, PG_F m loc))) \<and>
           Iterations r = (if n = nat (MaxIterations m) then MaxIterations m - 1 else int n) \<and>
           (\<forall>k. int k \<le> MaxIterations m - 1 \<and>
                pg_converged m ((pg_step m ^^ k) (loc, PG_F m loc)) \<and>
                (\<forall>i<k. \<not> pg_converged m ((pg_step m ^^ i) (loc, PG_F m loc)))
                \<longrightarrow> Iterations r = int k)"
proof -
  define s0 where "s0 = (loc, PG_F m loc)"
  define k0 where "k0 = nat (MaxIterations m - 1)"
  have k0: "MaxIterations m - 1 - 0 = int k0" "Suc k0 = nat (MaxIterations m)"
    using assms by (simp_all add: k0_def)
  from MandelPG_pass_run [OF k0(1), of s0]
  obtain n where n: "n \<le> Suc k0"
    "loop_within (Suc k0) (MandelPG_pass m) (fst s0, snd s0, 0)
       = Some (fst ((pg_step m ^^ n) s0), snd ((pg_step m ^^ n) s0),
               if n = Suc k0 then MaxIterations m - 1 else 0 + int n)"
    "\<forall>i<n. \<not> pg_converged m ((pg_step m ^^ i) s0)"
    "n < Suc k0 \<longrightarrow> pg_converged m ((pg_step m ^^ n) s0)"
    by blast
  define r where "r = \<lparr>Z = fst ((pg_step m ^^ n) s0), C = snd ((pg_step m ^^ n) s0),
       Iterations = (if n = Suc k0 then MaxIterations m - 1 else int n), NFactor = 0\<rparr>"
  have run: "MandelPG_Frac m loc = Some r"
    using loop_within_loop [OF n(2)] by (simp add: MandelPG_Frac_def s0_def r_def)
  have first: "Iterations r = int k"
    if k: "int k \<le> MaxIterations m - 1" "pg_converged m ((pg_step m ^^ k) s0)"
          "\<forall>i<k. \<not> pg_converged m ((pg_step m ^^ i) s0)" for k
  proof -
    have "k < Suc k0" using k(1) k0(2) by linarith
    have "\<not> k < n" using n(3) k(2) by blast
    moreover have "\<not> n < k" using n(4) k(3) \<open>k < Suc k0\<close> by auto
    ultimately have "n = k" by simp
    with \<open>k < Suc k0\<close> show ?thesis by (simp add: r_def)
  qed
  show ?thesis
    apply (rule exI [of _ n])
    apply (rule exI [of _ r])
    apply (intro conjI)
    using run apply simp
    using n(1) k0(2) apply simp
    apply (simp add: r_def s0_def)
    using n(3) apply (simp add: s0_def)
    using n(4) k0(2) apply (simp add: s0_def)
    using k0(2) apply (simp add: r_def)
    using first apply (simp add: s0_def)
    done
qed

theorem MandelPG_Frac_spec_witness:
  "\<exists>(n::nat) r. MandelPG_Frac \<lparr>Radius = 0, MaxIterations = 5, degree = 0, logDegreeInv = 0,
             PG_B = (\<lambda>z. z / 2), PG_F = (\<lambda>loc. loc), PG_G = (\<lambda>c. c / 2), PG_eps = 1\<rparr> 2
           = Some r \<and> n \<le> 5 \<and> Iterations r = 1"
proof -
  let ?m = "\<lparr>Radius = 0, MaxIterations = 5, degree = 0, logDegreeInv = 0,
             PG_B = (\<lambda>z. z / 2), PG_F = (\<lambda>loc. loc), PG_G = (\<lambda>c. c / 2), PG_eps = 1\<rparr>"
  have conv: "pg_converged ?m ((pg_step ?m ^^ 1) (2, PG_F ?m 2))"
             "\<forall>i<1. \<not> pg_converged ?m ((pg_step ?m ^^ i) (2, PG_F ?m 2))"
    by (simp_all add: pg_converged_def pg_step_def)
  from MandelPG_Frac_spec [of ?m 2] obtain n r where
    r: "MandelPG_Frac ?m 2 = Some r" "n \<le> nat (MaxIterations ?m)"
       "\<forall>k. int k \<le> MaxIterations ?m - 1 \<and>
            pg_converged ?m ((pg_step ?m ^^ k) (2, PG_F ?m 2)) \<and>
            (\<forall>i<k. \<not> pg_converged ?m ((pg_step ?m ^^ i) (2, PG_F ?m 2)))
            \<longrightarrow> Iterations r = int k"
    by auto
  from r(3) [rule_format, of 1] conv have "Iterations r = 1"
    by simp
  with r(1,2) show ?thesis by auto
qed

text \<open>
  The claim's bound of \<open>MaxIterations - 1\<close> steps fails: with \<open>MaxIterations = 1\<close>,
  \<open>B z = z + 1\<close>, \<open>F loc = 0\<close>, \<open>G c = c\<close> and \<open>eps = 1/2\<close>, the bound allows no step, and
  the polynomiograph at \<open>0\<close> returns the first iterate \<open>1\<close>.
\<close>

theorem MandelPG_Frac_one_step_at_MaxIterations_1:
  "MaxIterations \<lparr>Radius = 0, MaxIterations = 1, degree = 0, logDegreeInv = 0,
       PG_B = (\<lambda>z. z + 1), PG_F = (\<lambda>loc. 0), PG_G = (\<lambda>c. c), PG_eps = 1 / 2\<rparr> - 1 = 0 \<and>
   MandelPG_Frac \<lparr>Radius = 0, MaxIterations = 1, degree = 0, logDegreeInv = 0,
       PG_B = (\<lambda>z. z + 1), PG_F = (\<lambda>loc. 0), PG_G = (\<lambda>c. c), PG_eps = 1 / 2\<rparr> 0
     = Some \<lparr>Z = 1, C = 0, Iterations = 0, NFactor = 0\<rparr> \<and>
   (pg_step \<lparr>Radius = 0, MaxIterations = 1, degree = 0, logDegreeInv = 0,
       PG_B = (\<lambda>z. z + 1), PG_F = (\<lambda>loc. 0), PG_G = (\<lambda>c. c), PG_eps = 1 / 2\<rparr> ^^ 1) (0, 0)
     = (1, 0)"
proof -
  have "loop_within (Suc 0) (MandelPG_pass \<lparr>Radius = 0, MaxIterations = 1, degree = 0,
       logDegreeInv = 0, PG_B = (\<lambda>z. z + 1), PG_F = (\<lambda>loc. 0), PG_G = (\<lambda>c. c),
       PG_eps = 1 / 2\<rparr>) (0, 0, 0) = Some (1, 0, 0)"
    by (simp add: MandelPG_pass_def)
  from loop_within_loop [OF this] show ?thesis
    by (simp add: MandelPG_Frac_def pg_step_def)
qed

text \<open>
  Claim C10. When the polynomiograph stops because the convergence test holds, first at
  step \<open>k\<close> and before the iteration bound has ended the loop, the record returned holds
  \<open>z\<^sub>k\<close>, not the \<open>z\<^sub>k\<^sub>+\<^sub>1\<close> just computed, and \<open>c\<^sub>k\<close>, not advanced by \<open>G\<close>; the count is
  \<open>k\<close>.
\<close>

theorem MandelPG_Frac_convergence_exit:
  assumes "pg_converged m ((pg_step m ^^ k) (loc, PG_F m loc))"
    and "\<forall>i<k. \<not> pg_converged m ((pg_step m ^^ i) (loc, PG_F m loc)) \<and>
               int i \<noteq> MaxIterations m - 1"
  shows "MandelPG_Frac m loc
           = Some \<lparr>Z = fst ((pg_step m ^^ k) (loc, PG_F m loc)),
                   C = snd ((pg_step m ^^ k) (loc, PG_F m loc)),
                   Iterations = int k, NFactor = 0\<rparr>"
proof -
  have "\<forall>i<k. \<not> pg_converged m ((pg_step m ^^ i) (loc, PG_F m loc)) \<and>
               0 + int i \<noteq> MaxIterations m - 1"
    using assms(2) by simp
  from MandelPG_converge_run [OF assms(1) this]
  have "loop_within (Suc k) (MandelPG_pass m) (loc, PG_F m loc, 0)
          = Some (fst ((pg_step m ^^ k) (loc, PG_F m loc)),
                  snd ((pg_step m ^^ k) (loc, PG_F m loc)), int k)"
    by simp
  from loop_within_loop [OF this] show ?thesis
    by (simp add: MandelPG_Frac_def)
qed

theorem MandelPG_Frac_convergence_exit_witness:
  "MandelPG_Frac \<lparr>Radius = 0, MaxIterations = 5, degree = 0, logDegreeInv = 0,
       PG_B = (\<lambda>z. z / 2), PG_F = (\<lambda>loc. loc), PG_G = (\<lambda>c. c / 2), PG_eps = 1\<rparr> 2
     = Some \<lparr>Z = - 1, C = 1, Iterations = 1, NFactor = 0\<rparr>"
  using MandelPG_Frac_convergence_exit [of "\<lparr>Radius = 0, MaxIterations = 5, degree = 0,
       logDegreeInv = 0, PG_B = (\<lambda>z. z / 2), PG_F = (\<lambda>loc. loc), PG_G = (\<lambda>c. c / 2),
       PG_eps = 1\<rparr>" 1 2]
  by (simp add: pg_converged_def pg_step_def)

section \<open>Termination of the variants\<close>

text \<open>
  Every variant configured with \<open>MaxIterations \<ge> 1\<close> returns at every point, with a
  count in \<open>[0, MaxIterations - 1]\<close>.
\<close>

lemma Frac_returns:
  assumes "1 \<le> MaxIterations (Data f)"
  shows "\<exists>r. Frac f loc = Some r \<and> 0 \<le> Iterations r \<and> Iterations r \<le> MaxIterations (Data f) - 1"
proof (cases f)
  case (Fraccer_Mandelbrot m)
  with assms have m: "1 \<le> MaxIterations m" by simp
  show ?thesis
  proof (cases "isCardioidOrP2Bulb loc (MaxIterations m)")
    case True
    with m Fraccer_Mandelbrot show ?thesis by (simp add: Mandelbrot_Frac_def)
  next
    case False
    with q_within [OF m, of loc 0] Fraccer_Mandelbrot show ?thesis
      by (auto simp: Mandelbrot_Frac_def)
  qed
next
  case (Fraccer_JuliaQ j)
  with assms have "1 \<le> MaxIterations j" by (simp add: FracData.truncate_def)
  from q_within [OF this, of "JuliaQ_C j" loc] Fraccer_JuliaQ show ?thesis
    by (auto simp: JuliaQ_Frac_def FracData.truncate_def)
next
  case (Fraccer_JuliaR r)
  with assms have "1 \<le> MaxIterations r" by (simp add: FracData.truncate_def)
  from JuliaR_within [OF this, of loc] Fraccer_JuliaR show ?thesis
    by (auto simp: FracData.truncate_def)
next
  case (Fraccer_MandelPG m)
  with assms have "1 \<le> MaxIterations m" by (simp add: FracData.truncate_def)
  from MandelPG_within [OF this, of loc] Fraccer_MandelPG show ?thesis
    by (auto simp: FracData.truncate_def)
qed

text \<open>
  Claim C9. For every variant whose \<open>MaxIterations\<close> is at least \<open>1\<close>, \<open>Frac\<close> returns at
  every point, and each of the three loops (the quadratic core's, which Mandelbrot and
  quadratic Julia run, rational Julia's and the polynomiograph's) finishes within
  \<open>MaxIterations\<close> passes.
\<close>

theorem Frac_terminates:
  "(1 \<le> MaxIterations Q \<longrightarrow>
      (\<exists>res. loop_within (nat (MaxIterations Q))
                (q_pass (Radius Q * Radius Q) (MaxIterations Q - 1) c) (z0, getMod2 z0, 0) = Some res) \<and>
      (\<exists>r. q Q z0 c = Some r)) \<and>
   (1 \<le> MaxIterations jr \<longrightarrow>
      (\<exists>res. loop_within (nat (MaxIterations jr)) (JuliaR_pass jr) (loc, cmod loc, 0) = Some res) \<and>
      (\<exists>r. JuliaR_Frac jr loc = Some r)) \<and>
   (1 \<le> MaxIterations pg \<longrightarrow>
      (\<exists>res. loop_within (nat (MaxIterations pg)) (MandelPG_pass pg) (loc, PG_F pg loc, 0) = Some res) \<and>
      (\<exists>r. MandelPG_Frac pg loc = Some r)) \<and>
   (1 \<le> MaxIterations (Data f) \<longrightarrow> (\<exists>r. Frac f loc = Some r))"
proof (intro conjI impI)
  assume "1 \<le> MaxIterations Q"
  from q_within [OF this, of c z0]
  show "\<exists>res. loop_within (nat (MaxIterations Q))
                (q_pass (Radius Q * Radius Q) (MaxIterations Q - 1) c) (z0, getMod2 z0, 0) = Some res"
    and "\<exists>r. q Q z0 c = Some r" by auto
next
  assume "1 \<le> MaxIterations jr"
  from JuliaR_within [OF this, of loc]
  show "\<exists>res. loop_within (nat (MaxIterations jr)) (JuliaR_pass jr) (loc, cmod loc, 0) = Some res"
    and "\<exists>r. JuliaR_Frac jr loc = Some r" by auto
next
  assume "1 \<le> MaxIterations pg"
  from MandelPG_within [OF this, of loc]
  show "\<exists>res. loop_within (nat (MaxIterations pg)) (MandelPG_pass pg) (loc, PG_F pg loc, 0) = Some res"
    and "\<exists>r. MandelPG_Frac pg loc = Some r" by auto
next
  assume "1 \<le> MaxIterations (Data f)"
  from Frac_returns [OF this, of loc] show "\<exists>r. Frac f loc = Some r" by auto
qed

theorem Frac_terminates_witness:
  "(\<exists>res. loop_within 3 (q_pass (2 * 2) (3 - 1) 2) (0, getMod2 0, 0) = Some res) \<and>
   (\<exists>r. q \<lparr>Radius = 2, MaxIterations = 3, degree = 2, logDegreeInv = 0\<rparr> 0 2 = Some r) \<and>
   (\<exists>r. JuliaR_Frac \<lparr>Radius = 2, MaxIterations = 3, degree = 2, logDegreeInv = 0,
            JuliaR_P = (\<lambda>z. z * z), JuliaR_Q = (\<lambda>z. z + 1), JuliaR_C = 1\<rparr> 0 = Some r) \<and>
   (\<exists>r. MandelPG_Frac \<lparr>Radius = 0, MaxIterations = 5, degree = 0, logDegreeInv = 0,
            PG_B = (\<lambda>z. z / 2), PG_F = (\<lambda>loc. loc), PG_G = (\<lambda>c. c / 2), PG_eps = 1\<rparr> 0 = Some r) \<and>
   (\<exists>r. Frac (Fraccer_JuliaQ \<lparr>Radius = 2, MaxIterations = 3, degree = 2, logDegreeInv = 0,
            JuliaQ_C = 1\<rparr>) 0 = Some r)"
  using Frac_terminates [where Q = "\<lparr>Radius = 2, MaxIterations = 3, degree = 2, logDegreeInv = 0\<rparr>"
          and c = 2 and ?z0.0 = 0 and loc = 0
          and jr = "\<lparr>Radius = 2, MaxIterations = 3, degree = 2, logDegreeInv = 0,
            JuliaR_P = (\<lambda>z. z * z), JuliaR_Q = (\<lambda>z. z + 1), JuliaR_C = 1\<rparr>"
          and pg = "\<lparr>Radius = 0, MaxIterations = 5, degree = 0, logDegreeInv = 0,
            PG_B = (\<lambda>z. z / 2), PG_F = (\<lambda>loc. loc), PG_G = (\<lambda>c. c / 2), PG_eps = 1\<rparr>"
          and f = "Fraccer_JuliaQ \<lparr>Radius = 2, MaxIterations = 3, degree = 2, logDegreeInv = 0,
            JuliaQ_C = 1\<rparr>"]
  by (simp add: FracData.truncate_def)

section \<open>The dispatcher\<close>

lemma Fraccer_SetMaxIterations_ok:
  assumes "1 \<le> n"
  shows "snd (Fraccer_SetMaxIterations f n) = None \<and>
         MaxIterations (Data (fst (Fraccer_SetMaxIterations f n))) = n"
  using assms by (cases f) (simp_all add: SetMaxIterations_def FracData.truncate_def)

lemma Fraccer_SetMaxIterations_err:
  assumes "n < 1"
  shows "Fraccer_SetMaxIterations f n
           = (f, Some (errors_New ''gofrac: the maximum iteration count must be greater than zero''))"
  using assms by (cases f) (simp_all add: SetMaxIterations_def)

subsection \<open>Steps of the parallel phase\<close>

lemma pool_step_cases [consumes 1, case_names send closing recv exit eval fault row_done]:
  assumes "pool_step n d f rows cols a s = Some s'"
  obtains
    (send) "a = Dispatcher" "panic s = None" "next_row s < rows" "int (length (rowJobs s)) < rows"
           "s' = s\<lparr>rowJobs := rowJobs s @ [next_row s], next_row := next_row s + 1\<rparr>"
  | (closing) "a = Dispatcher" "panic s = None" "\<not> next_row s < rows" "\<not> closed s"
            "s' = s\<lparr>closed := True\<rparr>"
  | (recv) w row rest where "a = Worker w" "panic s = None" "w < n" "workers s w = Receiving"
           "rowJobs s = row # rest"
           "s' = s\<lparr>rowJobs := rest, workers := (workers s)(w := AtCell row 0)\<rparr>"
  | (exit) w where "a = Worker w" "panic s = None" "w < n" "workers s w = Receiving"
          "rowJobs s = []" "closed s" "s' = s\<lparr>workers := (workers s)(w := Returned)\<rparr>"
  | (eval) w row col loc r where "a = Worker w" "panic s = None" "w < n"
           "workers s w = AtCell row col" "col < cols" "At d col row = Inr loc" "Frac f loc = Some r"
           "s' = s\<lparr>pool_results := SetResult (pool_results s) row col (Z r) (C r) (Iterations r),
                   workers := (workers s)(w := AtCell row (col + 1))\<rparr>"
  | (fault) w row col err where "a = Worker w" "panic s = None" "w < n"
           "workers s w = AtCell row col" "col < cols" "At d col row = Inl err"
           "s' = s\<lparr>panic := Some err\<rparr>"
  | (row_done) w row col where "a = Worker w" "panic s = None" "w < n"
           "workers s w = AtCell row col" "\<not> col < cols"
           "s' = s\<lparr>workers := (workers s)(w := Receiving)\<rparr>"
  using assms
  by (auto simp: pool_step_def split: if_splits action.splits worker.splits list.splits
        sum.splits option.splits)

lemma pool_ok_step:
  assumes ok: "pool_ok n (Domain_rows d) s"
    and step: "pool_step n d f (Domain_rows d) (Domain_cols d) a s = Some s'"
  shows "pool_ok n (Domain_rows d) s'"
  using step
proof (cases rule: pool_step_cases)
  case send
  with ok show ?thesis by (auto simp: pool_ok_def)
next
  case closing
  with ok show ?thesis by (auto simp: pool_ok_def)
next
  case (recv w row rest)
  with ok show ?thesis by (auto simp: pool_ok_def)
next
  case (exit w)
  with ok show ?thesis by (auto simp: pool_ok_def)
next
  case (eval w row col loc r)
  with ok show ?thesis by (auto simp: pool_ok_def)
next
  case (fault w row col err)
  with ok have "0 \<le> row \<and> row < Domain_rows d \<and> 0 \<le> col" by (auto simp: pool_ok_def)
  with fault have False by (simp add: At_def)
  then show ?thesis ..
next
  case (row_done w row col)
  with ok show ?thesis by (auto simp: pool_ok_def)
qed

lemma records_ok_step:
  assumes ok: "pool_ok n (Domain_rows d) s"
    and recs: "records_ok d f (Domain_rows d) (Domain_cols d) s"
    and step: "pool_step n d f (Domain_rows d) (Domain_cols d) a s = Some s'"
  shows "records_ok d f (Domain_rows d) (Domain_cols d) s'"
  using step
proof (cases rule: pool_step_cases)
  case (eval w row col loc r)
  from ok eval have range: "0 \<le> row" "row < Domain_rows d" "0 \<le> col" "col < Domain_cols d"
    by (auto simp: pool_ok_def)
  with eval have loc: "loc = Domain_point d col row" by (simp add: At_def)
  show ?thesis
    unfolding records_ok_def
  proof (intro allI impI)
    fix row' col' rec
    assume rec: "Results_records (pool_results s') (row', col') = Some rec"
    show "0 \<le> row' \<and> row' < Domain_rows d \<and> 0 \<le> col' \<and> col' < Domain_cols d \<and>
          (\<exists>r. Frac f (Domain_point d col' row') = Some r \<and>
               rec = \<lparr>Z = Z r, C = C r, Iterations = Iterations r, NFactor = 0\<rparr>)"
    proof (cases "(row', col') = (row, col)")
      case True
      with rec eval loc range show ?thesis by (simp add: SetResult_def)
    next
      case False
      with rec eval have "Results_records (pool_results s) (row', col') = Some rec"
        by (auto simp: SetResult_def split: if_splits)
      with recs show ?thesis by (simp add: records_ok_def)
    qed
  qed
qed (use recs in \<open>simp_all add: records_ok_def\<close>)

lemma row_started_mono:
  "row_started cols s row col \<Longrightarrow>
   dom (Results_records (pool_results s)) \<subseteq> dom (Results_records (pool_results s')) \<Longrightarrow>
   row_started cols s' row col"
  unfolding row_started_def by blast

lemma rows_covered_step:
  assumes cov: "rows_covered n cols s"
    and step: "pool_step n d f rows cols a s = Some s'"
  shows "rows_covered n cols s'"
  unfolding rows_covered_def
proof (intro allI impI)
  fix row
  assume row: "0 \<le> row \<and> row < next_row s'"
  let ?goal = "row \<in> set (rowJobs s') \<or>
        (\<exists>w<n. \<exists>col. workers s' w = AtCell row col \<and> row_started cols s' row col) \<or>
        row_started cols s' row cols"
  from step show ?goal
  proof (cases rule: pool_step_cases)
    case send
    show ?thesis
    proof (cases "row = next_row s")
      case True
      with send show ?thesis by simp
    next
      case False
      with row send have "0 \<le> row \<and> row < next_row s" by simp
      with cov have "row \<in> set (rowJobs s) \<or>
        (\<exists>w<n. \<exists>col. workers s w = AtCell row col \<and> row_started cols s row col) \<or>
        row_started cols s row cols" by (simp add: rows_covered_def)
      with send show ?thesis by (auto simp: row_started_def)
    qed
  next
    case closing
    with row cov show ?thesis by (auto simp: rows_covered_def row_started_def)
  next
    case (recv w row0 rest)
    from row recv have "0 \<le> row \<and> row < next_row s" by simp
    with cov consider "row \<in> set (rowJobs s)"
      | w' col where "w' < n" "workers s w' = AtCell row col" "row_started cols s row col"
      | "row_started cols s row cols" by (auto simp: rows_covered_def)
    then show ?thesis
    proof cases
      case 1
      show ?thesis
      proof (cases "row = row0")
        case True
        have "row_started cols s' row 0" by (auto simp: row_started_def)
        with True recv show ?thesis by auto
      next
        case False
        with 1 recv show ?thesis by simp
      qed
    next
      case 2
      with recv have "w' \<noteq> w" by auto
      with 2 recv have "workers s' w' = AtCell row col" "row_started cols s' row col"
        by (simp_all add: row_started_def)
      with 2(1) show ?thesis by blast
    next
      case 3
      with recv show ?thesis by (simp add: row_started_def)
    qed
  next
    case (exit w)
    from row exit have "0 \<le> row \<and> row < next_row s" by simp
    with cov consider "row \<in> set (rowJobs s)"
      | w' col where "w' < n" "workers s w' = AtCell row col" "row_started cols s row col"
      | "row_started cols s row cols" by (auto simp: rows_covered_def)
    then show ?thesis
    proof cases
      case 1
      with exit show ?thesis by simp
    next
      case 2
      with exit have "w' \<noteq> w" by auto
      with 2 exit have "workers s' w' = AtCell row col" "row_started cols s' row col"
        by (simp_all add: row_started_def)
      with 2(1) show ?thesis by blast
    next
      case 3
      with exit show ?thesis by (simp add: row_started_def)
    qed
  next
    case (eval w row0 col0 loc r)
    have sub: "dom (Results_records (pool_results s)) \<subseteq> dom (Results_records (pool_results s'))"
      using eval by (auto simp: SetResult_def)
    have new: "(row0, col0) \<in> dom (Results_records (pool_results s'))"
      using eval by (simp add: SetResult_def)
    from row eval have "0 \<le> row \<and> row < next_row s" by simp
    with cov consider "row \<in> set (rowJobs s)"
      | w' col where "w' < n" "workers s w' = AtCell row col" "row_started cols s row col"
      | "row_started cols s row cols" by (auto simp: rows_covered_def)
    then show ?thesis
    proof cases
      case 1
      with eval show ?thesis by simp
    next
      case 2
      show ?thesis
      proof (cases "w' = w")
        case True
        with 2 eval have same: "row0 = row" "col0 = col" by simp_all
        have "row_started cols s' row (col + 1)"
          unfolding row_started_def
        proof (intro allI impI)
          fix c assume c: "0 \<le> c \<and> c < col + 1 \<and> c < cols"
          show "(row, c) \<in> dom (Results_records (pool_results s'))"
          proof (cases "c = col")
            case True
            with new same show ?thesis by simp
          next
            case False
            with c have "0 \<le> c \<and> c < col \<and> c < cols" by simp
            with 2(3) have "(row, c) \<in> dom (Results_records (pool_results s))"
              by (simp add: row_started_def)
            with sub show ?thesis by blast
          qed
        qed
        moreover have "workers s' w = AtCell row (col + 1)" using eval same by simp
        ultimately show ?thesis using eval(3) by blast
      next
        case False
        with 2 eval have "workers s' w' = AtCell row col" by simp
        moreover have "row_started cols s' row col" using 2(3) sub by (rule row_started_mono)
        ultimately show ?thesis using 2(1) by blast
      qed
    next
      case 3
      then have "row_started cols s' row cols" using sub by (rule row_started_mono)
      then show ?thesis by simp
    qed
  next
    case (fault w row0 col0 err)
    with row cov show ?thesis by (auto simp: rows_covered_def row_started_def)
  next
    case (row_done w row0 col0)
    from row row_done have "0 \<le> row \<and> row < next_row s" by simp
    with cov consider "row \<in> set (rowJobs s)"
      | w' col where "w' < n" "workers s w' = AtCell row col" "row_started cols s row col"
      | "row_started cols s row cols" by (auto simp: rows_covered_def)
    then show ?thesis
    proof cases
      case 1
      with row_done show ?thesis by simp
    next
      case 2
      show ?thesis
      proof (cases "w' = w")
        case True
        with 2 row_done have "row0 = row" "col0 = col" by simp_all
        with row_done have "\<not> col < cols" by simp
        with 2(3) have "row_started cols s row cols" by (auto simp: row_started_def)
        with row_done show ?thesis by (simp add: row_started_def)
      next
        case False
        with 2 row_done have "workers s' w' = AtCell row col" "row_started cols s' row col"
          by (simp_all add: row_started_def)
        with 2(1) show ?thesis by blast
      qed
    next
      case 3
      with row_done show ?thesis by (simp add: row_started_def)
    qed
  qed
qed

lemma pool_run_invariants:
  "pool_run n d f (Domain_rows d) (Domain_cols d) schedule s = Some s' \<Longrightarrow>
   pool_ok n (Domain_rows d) s \<Longrightarrow>
   records_ok d f (Domain_rows d) (Domain_cols d) s \<Longrightarrow>
   rows_covered n (Domain_cols d) s \<Longrightarrow>
   pool_ok n (Domain_rows d) s' \<and> records_ok d f (Domain_rows d) (Domain_cols d) s' \<and>
   rows_covered n (Domain_cols d) s'"
proof (induction schedule arbitrary: s)
  case Nil
  then show ?case by simp
next
  case (Cons a schedule)
  from Cons.prems(1) obtain s1 where
    step: "pool_step n d f (Domain_rows d) (Domain_cols d) a s = Some s1"
    and run: "pool_run n d f (Domain_rows d) (Domain_cols d) schedule s1 = Some s'"
    by (auto split: option.splits)
  have "pool_ok n (Domain_rows d) s1" using Cons.prems(2) step by (rule pool_ok_step)
  moreover have "records_ok d f (Domain_rows d) (Domain_cols d) s1"
    using Cons.prems(2,3) step by (rule records_ok_step)
  moreover have "rows_covered n (Domain_cols d) s1"
    using Cons.prems(4) step by (rule rows_covered_step)
  ultimately show ?case using Cons.IH [OF run] by blast
qed

lemma pool_init_invariants:
  assumes "1 \<le> rows"
  shows "pool_ok n rows \<lparr>next_row = 0, closed = False, rowJobs = [],
            workers = (\<lambda>w. Receiving), pool_results = NewResults rows cols iterations,
            panic = None\<rparr>"
    and "records_ok d f rows cols \<lparr>next_row = 0, closed = False, rowJobs = [],
            workers = (\<lambda>w. Receiving), pool_results = NewResults rows cols iterations,
            panic = None\<rparr>"
    and "rows_covered n cols \<lparr>next_row = 0, closed = False, rowJobs = [],
            workers = (\<lambda>w. Receiving), pool_results = NewResults rows cols iterations,
            panic = None\<rparr>"
  using assms by (auto simp: pool_ok_def records_ok_def rows_covered_def NewResults_def)

subsection \<open>Progress\<close>

lemma sum_workers_upd:
  fixes g :: "worker \<Rightarrow> nat" and w0 n :: nat
  assumes "w0 < n"
  shows "(\<Sum>w<n. g ((ws(w0 := v)) w)) + g (ws w0) = (\<Sum>w<n. g (ws w)) + g v"
proof -
  have fin: "finite {..<n}" and mem: "w0 \<in> {..<n}" using assms by simp_all
  have rest: "(\<Sum>w\<in>{..<n} - {w0}. g ((ws(w0 := v)) w)) = (\<Sum>w\<in>{..<n} - {w0}. g (ws w))"
    by (rule sum.cong) auto
  have "(\<Sum>w<n. g ((ws(w0 := v)) w)) = g v + (\<Sum>w\<in>{..<n} - {w0}. g ((ws(w0 := v)) w))"
    using sum.remove [OF fin mem, of "\<lambda>w. g ((ws(w0 := v)) w)"] by simp
  moreover have "(\<Sum>w<n. g (ws w)) = g (ws w0) + (\<Sum>w\<in>{..<n} - {w0}. g (ws w))"
    using sum.remove [OF fin mem, of "\<lambda>w. g (ws w)"] by simp
  ultimately show ?thesis using rest by simp
qed

lemma pool_work_step:
  assumes ok: "pool_ok n (Domain_rows d) s"
    and step: "pool_step n d f (Domain_rows d) (Domain_cols d) a s = Some s'"
  shows "pool_work n (Domain_rows d) (Domain_cols d) s'
           < pool_work n (Domain_rows d) (Domain_cols d) s"
  using step
proof (cases rule: pool_step_cases)
  case send
  then have "nat (Domain_rows d - next_row s) = Suc (nat (Domain_rows d - (next_row s + 1)))"
    by simp
  with send show ?thesis by (simp add: pool_work_def)
next
  case closing
  then show ?thesis by (simp add: pool_work_def)
next
  case (recv w row rest)
  from sum_workers_upd [OF recv(3), of "worker_work (Domain_cols d)" "workers s" "AtCell row 0"]
  have "(\<Sum>w'<n. worker_work (Domain_cols d) (((workers s)(w := AtCell row 0)) w')) + 1
          = (\<Sum>w'<n. worker_work (Domain_cols d) (workers s w')) + (nat (Domain_cols d) + 2)"
    using recv(4) by (simp add: worker_work_def)
  with recv show ?thesis by (simp add: pool_work_def)
next
  case (exit w)
  from sum_workers_upd [OF exit(3), of "worker_work (Domain_cols d)" "workers s" Returned]
  have "(\<Sum>w'<n. worker_work (Domain_cols d) (((workers s)(w := Returned)) w')) + 1
          = (\<Sum>w'<n. worker_work (Domain_cols d) (workers s w'))"
    using exit(4) by (simp add: worker_work_def)
  with exit show ?thesis by (simp add: pool_work_def)
next
  case (eval w row col loc r)
  from sum_workers_upd [OF eval(3), of "worker_work (Domain_cols d)" "workers s"
      "AtCell row (col + 1)"]
  have "(\<Sum>w'<n. worker_work (Domain_cols d) (((workers s)(w := AtCell row (col + 1))) w'))
          + (nat (Domain_cols d - col) + 2)
          = (\<Sum>w'<n. worker_work (Domain_cols d) (workers s w'))
          + (nat (Domain_cols d - (col + 1)) + 2)"
    using eval(4) by (simp add: worker_work_def)
  moreover have "nat (Domain_cols d - col) = Suc (nat (Domain_cols d - (col + 1)))"
    using eval(5) by simp
  ultimately show ?thesis using eval by (simp add: pool_work_def SetResult_def)
next
  case (fault w row col err)
  with ok have "0 \<le> row \<and> row < Domain_rows d \<and> 0 \<le> col" by (auto simp: pool_ok_def)
  with fault have False by (simp add: At_def)
  then show ?thesis ..
next
  case (row_done w row col)
  from sum_workers_upd [OF row_done(3), of "worker_work (Domain_cols d)" "workers s" Receiving]
  have "(\<Sum>w'<n. worker_work (Domain_cols d) (((workers s)(w := Receiving)) w'))
          + (nat (Domain_cols d - col) + 2)
          = (\<Sum>w'<n. worker_work (Domain_cols d) (workers s w')) + 1"
    using row_done(4) by (simp add: worker_work_def)
  with row_done show ?thesis by (simp add: pool_work_def)
qed

lemma pool_progress:
  assumes ok: "pool_ok n (Domain_rows d) s"
    and total: "\<And>loc. Frac f loc \<noteq> None"
    and not_done: "\<not> wg_Wait_returns n s"
  shows "\<exists>a s'. pool_step n d f (Domain_rows d) (Domain_cols d) a s = Some s'"
proof -
  from ok have np: "panic s = None" by (simp add: pool_ok_def)
  show ?thesis
  proof (cases "next_row s < Domain_rows d")
    case True
    moreover from ok True have "int (length (rowJobs s)) < Domain_rows d"
      by (simp add: pool_ok_def)
    ultimately show ?thesis using np
      by (intro exI [of _ Dispatcher]) (simp add: pool_step_def)
  next
    case sent: False
    show ?thesis
    proof (cases "closed s")
      case False
      with sent np show ?thesis
        by (intro exI [of _ Dispatcher]) (simp add: pool_step_def)
    next
      case True
      with not_done np obtain w where w: "w < n" "workers s w \<noteq> Returned"
        by (auto simp: wg_Wait_returns_def)
      show ?thesis
      proof (cases "workers s w")
        case Receiving
        with w(1) np True show ?thesis
          by (intro exI [of _ "Worker w"]) (simp add: pool_step_def split: list.splits)
      next
        case (AtCell row col)
        show ?thesis
        proof (cases "col < Domain_cols d")
          case False
          with AtCell w(1) np show ?thesis
            by (intro exI [of _ "Worker w"]) (simp add: pool_step_def)
        next
          case col: True
          from ok w(1) AtCell have "0 \<le> row \<and> row < Domain_rows d \<and> 0 \<le> col"
            by (auto simp: pool_ok_def)
          with col have at: "At d col row = Inr (Domain_point d col row)" by (simp add: At_def)
          from total [of "Domain_point d col row"] obtain r
            where "Frac f (Domain_point d col row) = Some r" by auto
          with at col AtCell w(1) np show ?thesis
            by (intro exI [of _ "Worker w"]) (simp add: pool_step_def)
        qed
      next
        case Returned
        with w(2) show ?thesis by simp
      qed
    qed
  qed
qed

lemma pool_completes:
  assumes total: "\<And>loc. Frac f loc \<noteq> None"
  shows "pool_ok n (Domain_rows d) s \<Longrightarrow>
         \<exists>schedule s'. pool_run n d f (Domain_rows d) (Domain_cols d) schedule s = Some s' \<and>
                        wg_Wait_returns n s'"
proof (induction "pool_work n (Domain_rows d) (Domain_cols d) s" arbitrary: s rule: less_induct)
  case less
  show ?case
  proof (cases "wg_Wait_returns n s")
    case True
    then show ?thesis by (intro exI [of _ "[]"]) simp
  next
    case False
    from pool_progress [OF less.prems total False]
    obtain a s1 where step: "pool_step n d f (Domain_rows d) (Domain_cols d) a s = Some s1"
      by blast
    have "pool_ok n (Domain_rows d) s1" using less.prems step by (rule pool_ok_step)
    moreover have "pool_work n (Domain_rows d) (Domain_cols d) s1
                     < pool_work n (Domain_rows d) (Domain_cols d) s"
      using less.prems step by (rule pool_work_step)
    ultimately obtain schedule s' where
      "pool_run n d f (Domain_rows d) (Domain_cols d) schedule s1 = Some s'"
      "wg_Wait_returns n s'"
      using less.hyps by blast
    with step show ?thesis by (intro exI [of _ "a # schedule"]) simp
  qed
qed

lemma pool_run_append:
  "pool_run n d f rows cols (as @ bs) s =
     (case pool_run n d f rows cols as s of
        None \<Rightarrow> None
      | Some s' \<Rightarrow> pool_run n d f rows cols bs s')"
  by (induction as arbitrary: s) (simp_all split: option.splits)

lemma pool_run_bounded:
  "pool_run n d f (Domain_rows d) (Domain_cols d) schedule s = Some s' \<Longrightarrow>
   pool_ok n (Domain_rows d) s \<Longrightarrow>
   length schedule + pool_work n (Domain_rows d) (Domain_cols d) s'
     \<le> pool_work n (Domain_rows d) (Domain_cols d) s"
proof (induction schedule arbitrary: s)
  case Nil
  then show ?case by simp
next
  case (Cons a schedule)
  from Cons.prems(1) obtain s1 where
    step: "pool_step n d f (Domain_rows d) (Domain_cols d) a s = Some s1"
    and run: "pool_run n d f (Domain_rows d) (Domain_cols d) schedule s1 = Some s'"
    by (auto split: option.splits)
  have ok1: "pool_ok n (Domain_rows d) s1" using Cons.prems(2) step by (rule pool_ok_step)
  have "pool_work n (Domain_rows d) (Domain_cols d) s1
          < pool_work n (Domain_rows d) (Domain_cols d) s"
    using Cons.prems(2) step by (rule pool_work_step)
  with Cons.IH [OF run ok1] show ?case by simp
qed

subsection \<open>The final state\<close>

lemma pool_final_dom:
  assumes "0 < n" and ok: "pool_ok n rows s" and recs: "records_ok d f rows cols s"
    and cov: "rows_covered n cols s" and fin: "wg_Wait_returns n s"
  shows "dom (Results_records (pool_results s)) = {0..<rows} \<times> {0..<cols}"
proof (intro set_eqI iffI)
  fix p assume "p \<in> dom (Results_records (pool_results s))"
  then obtain rec where "Results_records (pool_results s) (fst p, snd p) = Some rec" by auto
  with recs have "0 \<le> fst p \<and> fst p < rows \<and> 0 \<le> snd p \<and> snd p < cols"
    unfolding records_ok_def by blast
  then show "p \<in> {0..<rows} \<times> {0..<cols}" by (cases p) simp
next
  fix p assume "p \<in> {0..<rows} \<times> {0..<cols}"
  then have p: "0 \<le> fst p" "fst p < rows" "0 \<le> snd p" "snd p < cols" by auto
  from fin have all: "\<forall>w<n. workers s w = Returned" and "closed s"
    by (simp_all add: wg_Wait_returns_def)
  with \<open>0 < n\<close> ok have "rowJobs s = []" "next_row s = rows" by (auto simp: pool_ok_def)
  with cov p(1,2) all have "row_started cols s (fst p) cols"
    by (auto simp: rows_covered_def)
  with p(3,4) have "(fst p, snd p) \<in> dom (Results_records (pool_results s))"
    unfolding row_started_def by blast
  then show "p \<in> dom (Results_records (pool_results s))" by simp
qed

lemma FracIt_valid:
  assumes "1 \<le> Domain_rows d" and "1 \<le> Domain_cols d" and "1 \<le> iterations"
  shows "FracIt n schedule d f iterations =
     (fst (Fraccer_SetMaxIterations f iterations),
      case pool_run n d (fst (Fraccer_SetMaxIterations f iterations))
             (Domain_rows d) (Domain_cols d) schedule
             \<lparr>next_row = 0, closed = False, rowJobs = [], workers = (\<lambda>w. Receiving),
              pool_results = NewResults (Domain_rows d) (Domain_cols d) iterations,
              panic = None\<rparr> of
        None \<Rightarrow> None
      | Some s \<Rightarrow> if wg_Wait_returns n s then Some (Inr (Done (pool_results s))) else None)"
proof -
  obtain f' e where fe: "Fraccer_SetMaxIterations f iterations = (f', e)" by fastforce
  with Fraccer_SetMaxIterations_ok [OF assms(3), of f] have "e = None" by simp
  with fe assms(1,2) show ?thesis
    by (simp add: FracIt_def Dimensions_def Let_def split: option.splits)
qed

text \<open>
  Claim C3. For every domain with at least one row and one column and every
  \<open>iterations \<ge> 1\<close>, with at least one worker: \<open>FracIt\<close> returns under some schedule, and
  under whatever schedule it returns, it returns a sealed result collection whose
  populated records are exactly those of the \<open>rows \<times> columns\<close> coordinates, the record of
  each coordinate being the variant's result at that coordinate's point, with a count in
  \<open>[0, iterations - 1]\<close>.
\<close>

theorem FracIt_results:
  assumes "1 \<le> Domain_rows d" and "1 \<le> Domain_cols d" and "1 \<le> iterations"
    and "0 < numWorkers"
  shows "(\<exists>schedule rs. FracIt numWorkers schedule d f iterations
            = (fst (Fraccer_SetMaxIterations f iterations), Some (Inr rs))) \<and>
         (\<forall>schedule f' out. FracIt numWorkers schedule d f iterations = (f', Some out) \<longrightarrow>
            (\<exists>rs. out = Inr rs \<and> Results_done rs \<and>
               dom (Results_records rs) = {0..<Domain_rows d} \<times> {0..<Domain_cols d} \<and>
               card (dom (Results_records rs)) = nat (Domain_rows d) * nat (Domain_cols d) \<and>
               (\<forall>row col. 0 \<le> row \<and> row < Domain_rows d \<and> 0 \<le> col \<and> col < Domain_cols d \<longrightarrow>
                  (\<exists>r. Frac f' (Domain_point d col row) = Some r \<and>
                       Results_records rs (row, col)
                         = Some \<lparr>Z = Z r, C = C r, Iterations = Iterations r, NFactor = 0\<rparr> \<and>
                       0 \<le> Iterations r \<and> Iterations r \<le> iterations - 1))))"
proof (intro conjI allI impI)
  define f1 where "f1 = fst (Fraccer_SetMaxIterations f iterations)"
  define s0 where "s0 = \<lparr>next_row = 0, closed = False, rowJobs = [],
     workers = (\<lambda>w. Receiving),
     pool_results = NewResults (Domain_rows d) (Domain_cols d) iterations, panic = None\<rparr>"
  have m: "1 \<le> MaxIterations (Data f1)" "MaxIterations (Data f1) = iterations"
    using Fraccer_SetMaxIterations_ok [OF assms(3), of f] assms(3) by (simp_all add: f1_def)
  have total: "Frac f1 loc \<noteq> None" for loc
    using Frac_returns [OF m(1), of loc] by auto
  have ok0: "pool_ok numWorkers (Domain_rows d) s0"
    unfolding s0_def using assms(1) by (rule pool_init_invariants(1))
  from pool_completes [OF total ok0]
  obtain schedule s' where
    "pool_run numWorkers d f1 (Domain_rows d) (Domain_cols d) schedule s0 = Some s'"
    "wg_Wait_returns numWorkers s'" by blast
  then have "FracIt numWorkers schedule d f iterations = (f1, Some (Inr (Done (pool_results s'))))"
    using FracIt_valid [OF assms(1-3), of numWorkers schedule f] by (simp add: f1_def s0_def)
  then show "\<exists>schedule rs. FracIt numWorkers schedule d f iterations
            = (fst (Fraccer_SetMaxIterations f iterations), Some (Inr rs))"
    unfolding f1_def by blast
next
  fix schedule f' out
  assume run: "FracIt numWorkers schedule d f iterations = (f', Some out)"
  define s0 where "s0 = \<lparr>next_row = 0, closed = False, rowJobs = [],
     workers = (\<lambda>w. Receiving),
     pool_results = NewResults (Domain_rows d) (Domain_cols d) iterations, panic = None\<rparr>"
  from run FracIt_valid [OF assms(1-3), of numWorkers schedule f]
  have f': "f' = fst (Fraccer_SetMaxIterations f iterations)" by simp
  from run FracIt_valid [OF assms(1-3), of numWorkers schedule f]
  obtain s where s: "pool_run numWorkers d f' (Domain_rows d) (Domain_cols d) schedule s0 = Some s"
    "wg_Wait_returns numWorkers s" "out = Inr (Done (pool_results s))"
    by (auto simp: s0_def split: option.splits if_splits)
  have m: "1 \<le> MaxIterations (Data f')" "MaxIterations (Data f') = iterations"
    using Fraccer_SetMaxIterations_ok [OF assms(3), of f] assms(3) by (simp_all add: f')
  have inv: "pool_ok numWorkers (Domain_rows d) s"
    "records_ok d f' (Domain_rows d) (Domain_cols d) s"
    "rows_covered numWorkers (Domain_cols d) s"
    using pool_run_invariants [OF s(1)] pool_init_invariants [OF assms(1)]
    unfolding s0_def by blast+
  have dom: "dom (Results_records (pool_results s)) = {0..<Domain_rows d} \<times> {0..<Domain_cols d}"
    using assms(4) inv s(2) by (rule pool_final_dom)
  have card: "card (dom (Results_records (pool_results s)))
                = nat (Domain_rows d) * nat (Domain_cols d)"
    unfolding dom by (simp add: card_cartesian_product)
  have cells: "\<exists>r. Frac f' (Domain_point d col row) = Some r \<and>
                 Results_records (pool_results s) (row, col)
                   = Some \<lparr>Z = Z r, C = C r, Iterations = Iterations r, NFactor = 0\<rparr> \<and>
                 0 \<le> Iterations r \<and> Iterations r \<le> iterations - 1"
    if "0 \<le> row \<and> row < Domain_rows d \<and> 0 \<le> col \<and> col < Domain_cols d" for row col
  proof -
    from that dom have "(row, col) \<in> dom (Results_records (pool_results s))" by simp
    then obtain rec where rec: "Results_records (pool_results s) (row, col) = Some rec" by auto
    with inv(2) obtain r where r: "Frac f' (Domain_point d col row) = Some r"
      "rec = \<lparr>Z = Z r, C = C r, Iterations = Iterations r, NFactor = 0\<rparr>"
      unfolding records_ok_def by blast
    from Frac_returns [OF m(1), of "Domain_point d col row"] r(1) m(2)
    have "0 \<le> Iterations r \<and> Iterations r \<le> iterations - 1" by simp
    with rec r show ?thesis by simp
  qed
  show "\<exists>rs. out = Inr rs \<and> Results_done rs \<and>
               dom (Results_records rs) = {0..<Domain_rows d} \<times> {0..<Domain_cols d} \<and>
               card (dom (Results_records rs)) = nat (Domain_rows d) * nat (Domain_cols d) \<and>
               (\<forall>row col. 0 \<le> row \<and> row < Domain_rows d \<and> 0 \<le> col \<and> col < Domain_cols d \<longrightarrow>
                  (\<exists>r. Frac f' (Domain_point d col row) = Some r \<and>
                       Results_records rs (row, col)
                         = Some \<lparr>Z = Z r, C = C r, Iterations = Iterations r, NFactor = 0\<rparr> \<and>
                       0 \<le> Iterations r \<and> Iterations r \<le> iterations - 1))"
    apply (rule exI [of _ "Done (pool_results s)"])
    using s(3) dom card cells by (simp add: Done_def)
qed

theorem FracIt_results_witness:
  "\<exists>schedule rs.
     FracIt 2 schedule
       \<lparr>Domain_rows = 2, Domain_cols = 1, Domain_point = (\<lambda>col row. of_int (2 * row))\<rparr>
       (Fraccer_Mandelbrot \<lparr>Radius = 2, MaxIterations = 7, degree = 2, logDegreeInv = 0\<rparr>) 3
     = (Fraccer_Mandelbrot \<lparr>Radius = 2, MaxIterations = 3, degree = 2, logDegreeInv = 0\<rparr>,
        Some (Inr rs))"
  using FracIt_results [of
          "\<lparr>Domain_rows = 2, Domain_cols = 1, Domain_point = (\<lambda>col row. of_int (2 * row))\<rparr>"
          3 2
          "Fraccer_Mandelbrot \<lparr>Radius = 2, MaxIterations = 7, degree = 2, logDegreeInv = 0\<rparr>"]
  by (simp add: SetMaxIterations_def)

text \<open>
  Every run of the parallel phase can be continued to the end, and no run is longer than
  the work of the initial state: the dispatcher and the workers cannot block each other
  for ever.
\<close>

lemma FracIt_no_deadlock:
  assumes "1 \<le> Domain_rows d" and "1 \<le> Domain_cols d" and "1 \<le> iterations"
    and run: "pool_run numWorkers d (fst (Fraccer_SetMaxIterations f iterations))
                (Domain_rows d) (Domain_cols d) schedule
                \<lparr>next_row = 0, closed = False, rowJobs = [], workers = (\<lambda>w. Receiving),
                 pool_results = NewResults (Domain_rows d) (Domain_cols d) iterations,
                 panic = None\<rparr> = Some s"
  shows "\<exists>rest rs. FracIt numWorkers (schedule @ rest) d f iterations
           = (fst (Fraccer_SetMaxIterations f iterations), Some (Inr rs))"
    and "length schedule
           \<le> pool_work numWorkers (Domain_rows d) (Domain_cols d)
                \<lparr>next_row = 0, closed = False, rowJobs = [], workers = (\<lambda>w. Receiving),
                 pool_results = NewResults (Domain_rows d) (Domain_cols d) iterations,
                 panic = None\<rparr>"
proof -
  define f1 where "f1 = fst (Fraccer_SetMaxIterations f iterations)"
  define s0 where "s0 = \<lparr>next_row = 0, closed = False, rowJobs = [],
     workers = (\<lambda>w. Receiving),
     pool_results = NewResults (Domain_rows d) (Domain_cols d) iterations, panic = None\<rparr>"
  have m: "1 \<le> MaxIterations (Data f1)"
    using Fraccer_SetMaxIterations_ok [OF assms(3), of f] assms(3) by (simp add: f1_def)
  have total: "Frac f1 loc \<noteq> None" for loc
    using Frac_returns [OF m, of loc] by auto
  have ok0: "pool_ok numWorkers (Domain_rows d) s0"
    unfolding s0_def using assms(1) by (rule pool_init_invariants(1))
  have run': "pool_run numWorkers d f1 (Domain_rows d) (Domain_cols d) schedule s0 = Some s"
    using run by (simp add: f1_def s0_def)
  have "pool_ok numWorkers (Domain_rows d) s"
    using pool_run_invariants [OF run' ok0] pool_init_invariants(2,3) [OF assms(1)]
    unfolding s0_def by blast
  from pool_completes [OF total this]
  obtain rest s' where
    "pool_run numWorkers d f1 (Domain_rows d) (Domain_cols d) rest s = Some s'"
    "wg_Wait_returns numWorkers s'" by blast
  with run' have
    "FracIt numWorkers (schedule @ rest) d f iterations
       = (f1, Some (Inr (Done (pool_results s'))))"
    using FracIt_valid [OF assms(1-3), of numWorkers "schedule @ rest" f]
    by (simp add: f1_def s0_def pool_run_append)
  then show "\<exists>rest rs. FracIt numWorkers (schedule @ rest) d f iterations
           = (fst (Fraccer_SetMaxIterations f iterations), Some (Inr rs))"
    unfolding f1_def by blast
  from pool_run_bounded [OF run' ok0]
  show "length schedule
           \<le> pool_work numWorkers (Domain_rows d) (Domain_cols d)
                \<lparr>next_row = 0, closed = False, rowJobs = [], workers = (\<lambda>w. Receiving),
                 pool_results = NewResults (Domain_rows d) (Domain_cols d) iterations,
                 panic = None\<rparr>"
    by (simp add: s0_def)
qed

text \<open>
  A run on a grid of two rows and one column with two workers, the steps of the
  dispatcher and of the workers interleaved.
\<close>

lemma q_example: "q \<lparr>Radius = 2, MaxIterations = 3, degree = 2, logDegreeInv = 0\<rparr> 0 2
   = Some \<lparr>Z = 6, C = 2, Iterations = 2, NFactor = 0\<rparr>"
proof -
  have "loop_within 3 (q_pass (2 * 2) (3 - 1) 2) (0, getMod2 0, 0) = Some (6, 2)"
    by (simp add: numeral_3_eq_3 q_pass_def getMod2_def)
  from loop_within_loop [OF this] show ?thesis by (simp add: q_def)
qed

lemma FracIt_example_run:
  "FracIt 2 [Dispatcher, Worker 0, Dispatcher, Worker 1, Worker 1, Worker 0, Dispatcher,
             Worker 0, Worker 1, Worker 1, Worker 0]
       \<lparr>Domain_rows = 2, Domain_cols = 1, Domain_point = (\<lambda>col row. of_int (2 * row))\<rparr>
       (Fraccer_Mandelbrot \<lparr>Radius = 2, MaxIterations = 7, degree = 2, logDegreeInv = 0\<rparr>) 3
   = (Fraccer_Mandelbrot \<lparr>Radius = 2, MaxIterations = 3, degree = 2, logDegreeInv = 0\<rparr>,
      Some (Inr \<lparr>Results_rows = 2, Results_cols = 1, Results_capacity = 3,
                 Results_records = [(1, 0) \<mapsto> \<lparr>Z = 6, C = 2, Iterations = 2, NFactor = 0\<rparr>,
                                    (0, 0) \<mapsto> \<lparr>Z = 0, C = 0, Iterations = 2, NFactor = 0\<rparr>],
                 Results_done = True\<rparr>))"
  by (simp add: FracIt_def SetMaxIterations_def Dimensions_def NewResults_def pool_step_def
        At_def Mandelbrot_Frac_def isCardioidOrP2Bulb_def q_example SetResult_def
        wg_Wait_returns_def Done_def)

text \<open>
  Claim C5, as the code has it. \<open>FracIt\<close> fails before the parallel phase, under every
  schedule and so without any evaluation: with \<open>iterations < 1\<close> it returns the
  configuration error and leaves the variant as it was; with \<open>iterations \<ge> 1\<close> and a
  domain of fewer than one row or one column it returns the domain-shape error. The
  variant's maximum iteration count is set as soon as \<open>iterations \<ge> 1\<close> has been checked,
  before the domain's shape is: after a domain-shape error the variant holds the new
  count.
\<close>

theorem FracIt_validation:
  "(iterations < 1 \<longrightarrow>
      FracIt numWorkers schedule d f iterations
        = (f, Some (Inl (errors_New
             ''gofrac: the maximum iteration count must be greater than zero'')))) \<and>
   (1 \<le> iterations \<and> (Domain_cols d < 1 \<or> Domain_rows d < 1) \<longrightarrow>
      FracIt numWorkers schedule d f iterations
        = (fst (Fraccer_SetMaxIterations f iterations),
           Some (Inl (errors_New
             ''gofrac: the domain must be sampled at least once along each axis''))) \<and>
      MaxIterations (Data (fst (FracIt numWorkers schedule d f iterations))) = iterations)"
proof (intro conjI impI)
  assume "iterations < 1"
  from Fraccer_SetMaxIterations_err [OF this, of f]
  show "FracIt numWorkers schedule d f iterations
        = (f, Some (Inl (errors_New
             ''gofrac: the maximum iteration count must be greater than zero'')))"
    by (simp add: FracIt_def)
next
  assume a: "1 \<le> iterations \<and> (Domain_cols d < 1 \<or> Domain_rows d < 1)"
  obtain f' e where fe: "Fraccer_SetMaxIterations f iterations = (f', e)" by fastforce
  with Fraccer_SetMaxIterations_ok [of iterations f] a
  have e: "e = None" and m: "MaxIterations (Data f') = iterations" by simp_all
  from fe e a show eq: "FracIt numWorkers schedule d f iterations
        = (fst (Fraccer_SetMaxIterations f iterations),
           Some (Inl (errors_New
             ''gofrac: the domain must be sampled at least once along each axis'')))"
    by (simp add: FracIt_def Dimensions_def)
  show "MaxIterations (Data (fst (FracIt numWorkers schedule d f iterations))) = iterations"
    unfolding eq using fe m by simp
qed

theorem FracIt_validation_witness:
  "FracIt 2 [Dispatcher] \<lparr>Domain_rows = 3, Domain_cols = 4, Domain_point = (\<lambda>col row. 0)\<rparr>
     (Fraccer_Mandelbrot \<lparr>Radius = 2, MaxIterations = 7, degree = 2, logDegreeInv = 0\<rparr>) 0
   = (Fraccer_Mandelbrot \<lparr>Radius = 2, MaxIterations = 7, degree = 2, logDegreeInv = 0\<rparr>,
      Some (Inl (errors_New ''gofrac: the maximum iteration count must be greater than zero''))) \<and>
   FracIt 2 [Dispatcher] \<lparr>Domain_rows = 3, Domain_cols = 0, Domain_point = (\<lambda>col row. 0)\<rparr>
     (Fraccer_Mandelbrot \<lparr>Radius = 2, MaxIterations = 7, degree = 2, logDegreeInv = 0\<rparr>) 5
   = (Fraccer_Mandelbrot \<lparr>Radius = 2, MaxIterations = 5, degree = 2, logDegreeInv = 0\<rparr>,
      Some (Inl (errors_New ''gofrac: the domain must be sampled at least once along each axis'')))"
  using FracIt_validation [of 0 2 "[Dispatcher]"
          "\<lparr>Domain_rows = 3, Domain_cols = 4, Domain_point = (\<lambda>col row. 0)\<rparr>"
          "Fraccer_Mandelbrot \<lparr>Radius = 2, MaxIterations = 7, degree = 2, logDegreeInv = 0\<rparr>"]
        FracIt_validation [of 5 2 "[Dispatcher]"
          "\<lparr>Domain_rows = 3, Domain_cols = 0, Domain_point = (\<lambda>col row. 0)\<rparr>"
          "Fraccer_Mandelbrot \<lparr>Radius = 2, MaxIterations = 7, degree = 2, logDegreeInv = 0\<rparr>"]
  by (simp add: SetMaxIterations_def)

text \<open>
  The claim that the count is configured only after validation succeeds fails: on a
  domain without rows, \<open>FracIt\<close> with \<open>iterations = 5\<close> returns the domain-shape error and a
  variant whose count has changed from \<open>7\<close> to \<open>5\<close>.
\<close>

theorem FracIt_configures_before_shape_check:
  "FracIt 1 [] \<lparr>Domain_rows = 0, Domain_cols = 4, Domain_point = (\<lambda>col row. 0)\<rparr>
     (Fraccer_Mandelbrot \<lparr>Radius = 2, MaxIterations = 7, degree = 2, logDegreeInv = 0\<rparr>) 5
   = (Fraccer_Mandelbrot \<lparr>Radius = 2, MaxIterations = 5, degree = 2, logDegreeInv = 0\<rparr>,
      Some (Inl (errors_New ''gofrac: the domain must be sampled at least once along each axis'')))"
  by (simp add: FracIt_def SetMaxIterations_def Dimensions_def)

end
